theory Spec2Isabelle
  imports Complex_Main "HOL-Library.AList"
begin

section \<open>JavaScript values, objects and the heap\<close>

text \<open>
  The render gate \<^verbatim>\<open>shouldUpdate\<close> of \<^verbatim>\<open>src/components/map.js\<close> compares two props
  objects. Its first statement deletes a property of an object that both props objects may
  share, so objects live in a heap and a value refers to one by its address. A primitive
  value is held directly. Numbers are reals together with \<open>NaN\<close>, the one value that is not
  strictly equal to itself.
\<close>

type_synonym addr = nat

datatype val = VUndefined | VNull | VBool bool | VNum real | VNaN | VStr string | VRef addr

text \<open>
  A property list gives the own enumerable properties of a plain object in enumeration
  order. A lookup takes the first entry of a name; an entry behind an earlier one of the
  same name is never seen by any operation below. A name the list does not have reads as
  \<^verbatim>\<open>undefined\<close>: the names that every object inherits from \<^verbatim>\<open>Object.prototype\<close>
  (\<^verbatim>\<open>constructor\<close>, \<^verbatim>\<open>toString\<close>, \<^verbatim>\<open>valueOf\<close> and the like) are taken not to be used as
  names of props. The two props objects themselves are made by the view framework for
  each render and nothing refers to them, so they are passed as property lists; what
  their properties refer to is in the heap.
\<close>

type_synonym props = "(string \<times> val) list"

text \<open>
  The attributes of a plain object: the names of its own properties that are not
  configurable (\<open>locked\<close>) and of those that are not writable (\<open>readonly\<close>), and whether
  properties can be added to it. \<^verbatim>\<open>Object.freeze\<close> puts every name in both lists and
  \<^verbatim>\<open>Object.seal\<close> every name in the first; both make the object inextensible. An object
  written as a literal has two empty lists and is extensible. A name in a list that is no
  own property of the object has no effect. Properties are data properties: no getters,
  no setters.
\<close>

record attrs =
  locked :: "string list"
  readonly :: "string list"
  extensible :: bool

text \<open>
  A heap object is a plain object, an array, or a function. A function carries its source
  text (what \<^verbatim>\<open>Function.prototype.toString\<close> returns) and the variables it has captured; two
  closures made from the same function expression have the same text, different addresses
  and possibly different captured values. Arrays and functions are taken to have no named
  properties of their own.
\<close>

datatype obj = JObject props attrs | JArray "val list" | JFunction string props

type_synonym heap = "(addr \<times> obj) list"

text \<open>
  What a call can throw: a \<^verbatim>\<open>TypeError\<close>, or the \<^verbatim>\<open>RangeError\<close> by which the engine ends a
  recursion that does not end by itself. \<open>Unsupported\<close> is no error of JavaScript, see
  \<open>toString\<close> below.
\<close>

datatype error = TypeError | RangeError | Unsupported

definition getProp :: "props \<Rightarrow> string \<Rightarrow> val" where
  "getProp ps k = (case map_of ps k of None \<Rightarrow> VUndefined | Some v \<Rightarrow> v)"

definition keys :: "props \<Rightarrow> string list" where
  "keys ps = remdups (map fst ps)"

definition deleteProp :: "props \<Rightarrow> string \<Rightarrow> props" where
  "deleteProp ps k = AList.delete k ps"

text \<open>
  The assignment \<^verbatim>\<open>object[k] = v\<close> on a property list: an existing property keeps its
  place, a new one comes last.
\<close>

definition setProp :: "props \<Rightarrow> string \<Rightarrow> val \<Rightarrow> props" where
  "setProp ps k v = AList.update k v ps"

text \<open>The attributes once the property \<open>k\<close> is gone, or has just been made by assignment.\<close>

definition forget :: "string \<Rightarrow> attrs \<Rightarrow> attrs" where
  "forget k att = att\<lparr>locked := removeAll k (locked att), readonly := removeAll k (readonly att)\<rparr>"

definition strictEq :: "val \<Rightarrow> val \<Rightarrow> bool" where
  "strictEq v w = (v = w \<and> v \<noteq> VNaN)"

definition isNullish :: "val \<Rightarrow> bool" where
  "isNullish v = (v = VUndefined \<or> v = VNull)"

definition isFunction :: "heap \<Rightarrow> val \<Rightarrow> bool" where
  "isFunction h v =
    (case v of
       VRef a \<Rightarrow> (case map_of h a of Some (JFunction s e) \<Rightarrow> True | _ \<Rightarrow> False)
     | _ \<Rightarrow> False)"

definition isObjectLike :: "heap \<Rightarrow> val \<Rightarrow> bool" where
  "isObjectLike h v =
    (case v of
       VRef a \<Rightarrow> (case map_of h a of Some (JFunction s e) \<Rightarrow> False | Some _ \<Rightarrow> True | None \<Rightarrow> False)
     | _ \<Rightarrow> False)"

text \<open>JavaScript's \<^verbatim>\<open>ToBoolean\<close>, used by the conditional operator.\<close>

definition truthy :: "val \<Rightarrow> bool" where
  "truthy v =
    (case v of
       VUndefined \<Rightarrow> False
     | VNull \<Rightarrow> False
     | VBool b \<Rightarrow> b
     | VNum r \<Rightarrow> r \<noteq> 0
     | VNaN \<Rightarrow> False
     | VStr s \<Rightarrow> s \<noteq> []
     | VRef a \<Rightarrow> True)"

text \<open>
  \<^verbatim>\<open>x.toString()\<close>: a \<^verbatim>\<open>TypeError\<close> on \<^verbatim>\<open>undefined\<close> and \<^verbatim>\<open>null\<close>, the source text of a
  function. The text of a number, an array or a plain object depends on number formatting
  and on \<^verbatim>\<open>toString\<close> methods the object may define; the model stops with \<open>Unsupported\<close>
  there, and \<open>shouldUpdate_supported\<close> below shows that the gate never gets there.
\<close>

definition toString :: "heap \<Rightarrow> val \<Rightarrow> error + string" where
  "toString h v =
    (case v of
       VUndefined \<Rightarrow> Inl TypeError
     | VNull \<Rightarrow> Inl TypeError
     | VBool b \<Rightarrow> Inr (if b then ''true'' else ''false'')
     | VNum r \<Rightarrow> Inl Unsupported
     | VNaN \<Rightarrow> Inr ''NaN''
     | VStr s \<Rightarrow> Inr s
     | VRef a \<Rightarrow> (case map_of h a of Some (JFunction s e) \<Rightarrow> Inr s | _ \<Rightarrow> Inl Unsupported))"

section \<open>The lodash helpers\<close>

text \<open>
  \<^verbatim>\<open>functions(object)\<close>: the names of the own enumerable properties whose value is a
  function, in enumeration order. (\<open>functions\<close> is a keyword of Isabelle, hence the
  longer name.)
\<close>

definition functionsOf :: "heap \<Rightarrow> props \<Rightarrow> string list" where
  "functionsOf h ps = filter (\<lambda>k. isFunction h (getProp ps k)) (keys ps)"

text \<open>
  \<^verbatim>\<open>omit(object, names)\<close>: a new object with the properties of \<open>object\<close> but those named.
  Every name handed over by the gate is an own property name, which lodash takes as a
  single key and not as a dotted path.
\<close>

definition omit :: "props \<Rightarrow> string list \<Rightarrow> props" where
  "omit ps names = filter (\<lambda>(k, v). k \<notin> set names) ps"

text \<open>
  The \<^verbatim>\<open>Stack\<close> of lodash 4.17, on which \<^verbatim>\<open>isEqual\<close> keeps the pairs of objects under
  comparison. It starts as a list of pairs: \<^verbatim>\<open>set\<close> pushes a pair without looking for the
  key, \<^verbatim>\<open>get\<close> and \<^verbatim>\<open>delete\<close> take the pair pushed last for the key (the list has the
  newest pair first). A \<^verbatim>\<open>set\<close> that finds 199 pairs turns the list into a map for good: from
  then on \<^verbatim>\<open>set\<close> replaces the entry of a key and \<^verbatim>\<open>delete\<close> removes it.
\<close>

datatype lstack = ListCache "(addr \<times> addr) list" | MapCache "addr \<rightharpoonup> addr"

definition stackGet :: "lstack \<Rightarrow> addr \<Rightarrow> addr option" where
  "stackGet stk k = (case stk of ListCache ps \<Rightarrow> map_of ps k | MapCache m \<Rightarrow> m k)"

definition stackSet :: "lstack \<Rightarrow> addr \<Rightarrow> addr \<Rightarrow> lstack" where
  "stackSet stk k v =
    (case stk of
       ListCache ps \<Rightarrow>
         if length ps < 199 then ListCache ((k, v) # ps)
         else MapCache ((map_of ps)(k \<mapsto> v))
     | MapCache m \<Rightarrow> MapCache (m(k \<mapsto> v)))"

fun removeFirst :: "addr \<Rightarrow> (addr \<times> addr) list \<Rightarrow> (addr \<times> addr) list" where
  "removeFirst k [] = []"
| "removeFirst k (p # ps) = (if fst p = k then ps else p # removeFirst k ps)"

definition stackDelete :: "lstack \<Rightarrow> addr \<Rightarrow> lstack" where
  "stackDelete stk k =
    (case stk of
       ListCache ps \<Rightarrow> ListCache (removeFirst k ps)
     | MapCache m \<Rightarrow> MapCache (m(k := None)))"

definition stacked :: "lstack \<Rightarrow> addr \<Rightarrow> addr \<Rightarrow> bool" where
  "stacked stk a b = (stackGet stk a \<noteq> None \<and> stackGet stk b \<noteq> None)"

text \<open>
  \<^verbatim>\<open>baseIsEqual\<close> of lodash 4.17, with \<^verbatim>\<open>equalObjects\<close> and \<^verbatim>\<open>equalArrays\<close>, as one function
  of two jobs: \<open>Values\<close> compares two values, \<open>Pairs\<close> is the loop of \<^verbatim>\<open>equalObjects\<close> and
  \<^verbatim>\<open>equalArrays\<close> over the values to compare, which skips strictly equal values and stops
  at the first pair that is not equal. Strictly equal values are equal; otherwise two
  primitives, or a value and a function, are equal only when both are \<open>NaN\<close>; two plain
  objects are equal when they have as many keys, every key of the first is a key of the
  second, and the values under each key are equal; two arrays when they have the same
  length and equal elements at every index. A pair of objects met while both are on the
  stack is equal when each is the other's entry (some earlier releases of 4.17 ask only
  that the entry of the first be the second; no claim below depends on the difference);
  otherwise the pair is put on the stack for the time of its comparison. Plain objects
  are taken to have no property named \<^verbatim>\<open>constructor\<close> or \<^verbatim>\<open>__wrapped__\<close>, for which lodash has
  cases of their own.

  The stack is one object that every call changes, so it is passed in and returned. The
  recursion need not end on a cyclic structure once the stack is a map, where an inner
  comparison removes the entries of an outer one; the function is partial, and a
  comparison that does not return has the value \<open>None\<close>. The call stack of the engine is
  taken to be as deep as a comparison that returns needs it: props are not nested deeper
  than the engine can follow.
\<close>

datatype job = Values val val | Pairs "(val \<times> val) list"

partial_function (option) deepCompare :: "heap \<Rightarrow> lstack \<Rightarrow> job \<Rightarrow> (bool \<times> lstack) option" where
  "deepCompare h stk j =
    (case j of
       Pairs zs \<Rightarrow>
         (case zs of
            [] \<Rightarrow> Some (True, stk)
          | z # rest \<Rightarrow>
              if strictEq (fst z) (snd z) then deepCompare h stk (Pairs rest)
              else Option.bind (deepCompare h stk (Values (fst z) (snd z)))
                (\<lambda>r. if fst r then deepCompare h (snd r) (Pairs rest) else Some (False, snd r)))
     | Values v w \<Rightarrow>
         if strictEq v w then Some (True, stk)
         else if isNullish v \<or> isNullish w \<or> (\<not> isObjectLike h v \<and> \<not> isObjectLike h w)
           then Some (v = VNaN \<and> w = VNaN, stk)
         else (case (v, w) of
            (VRef a, VRef b) \<Rightarrow>
              (case (map_of h a, map_of h b) of
                 (Some (JObject ps pa), Some (JObject qs qa)) \<Rightarrow>
                   if length (keys ps) \<noteq> length (keys qs) then Some (False, stk)
                   else if \<not> set (keys ps) \<subseteq> set (keys qs) then Some (False, stk)
                   else if stacked stk a b
                     then Some (stackGet stk a = Some b \<and> stackGet stk b = Some a, stk)
                   else Option.bind
                     (deepCompare h (stackSet (stackSet stk a b) b a)
                        (Pairs (map (\<lambda>k. (getProp ps k, getProp qs k)) (keys ps))))
                     (\<lambda>r. Some (fst r, stackDelete (stackDelete (snd r) a) b))
               | (Some (JArray xs), Some (JArray ys)) \<Rightarrow>
                   if length xs \<noteq> length ys then Some (False, stk)
                   else if stacked stk a b
                     then Some (stackGet stk a = Some b \<and> stackGet stk b = Some a, stk)
                   else Option.bind
                     (deepCompare h (stackSet (stackSet stk a b) b a) (Pairs (zip xs ys)))
                     (\<lambda>r. Some (fst r, stackDelete (stackDelete (snd r) a) b))
               | _ \<Rightarrow> Some (False, stk))
          | _ \<Rightarrow> Some (False, stk)))"

declare deepCompare.simps [code]

text \<open>
  The gate calls \<^verbatim>\<open>isEqual\<close> on the two objects \<^verbatim>\<open>omit\<close> has just made. Nothing refers to
  them, so they are compared as property lists; they are the first pair on a new stack,
  under two addresses that the heap does not use.
\<close>

definition freshAddr :: "heap \<Rightarrow> addr" where
  "freshAddr h = Suc (foldr max (map fst h) 0)"

definition isEqual :: "heap \<Rightarrow> props \<Rightarrow> props \<Rightarrow> bool option" where
  "isEqual h ps qs =
    (if length (keys ps) \<noteq> length (keys qs) then Some False
     else if \<not> set (keys ps) \<subseteq> set (keys qs) then Some False
     else map_option fst
       (deepCompare h
          (stackSet (stackSet (ListCache []) (freshAddr h) (Suc (freshAddr h)))
             (Suc (freshAddr h)) (freshAddr h))
          (Pairs (map (\<lambda>k. (getProp ps k, getProp qs k)) (keys ps)))))"

text \<open>
  \<^verbatim>\<open>Array.prototype.every\<close> with a callback that may throw: the first exception ends the
  loop, and so does the first \<^verbatim>\<open>false\<close>.
\<close>

fun every :: "('a \<Rightarrow> error + bool) \<Rightarrow> 'a list \<Rightarrow> error + bool" where
  "every p [] = Inr True"
| "every p (x # xs) =
    (case p x of
       Inl e \<Rightarrow> Inl e
     | Inr b \<Rightarrow> if b then every p xs else Inr False)"

section \<open>The render gate\<close>

text \<open>
  \<^verbatim>\<open>delete prevProps.options.mapTypeId\<close>, in the strict mode of a module: reading a property
  of \<^verbatim>\<open>undefined\<close> or \<^verbatim>\<open>null\<close> throws a \<^verbatim>\<open>TypeError\<close>; so does the deletion of an own property
  that is not configurable, as the properties of a frozen or sealed object are. Otherwise
  the property is removed from a plain object in place; on any other value (a number, a
  string, a boolean, an array, a function) there is no such property to remove and the
  statement does nothing.
\<close>

definition deleteMapTypeId :: "heap \<Rightarrow> props \<Rightarrow> error + heap" where
  "deleteMapTypeId h prevProps =
    (case getProp prevProps ''options'' of
       VUndefined \<Rightarrow> Inl TypeError
     | VNull \<Rightarrow> Inl TypeError
     | VRef a \<Rightarrow>
         (case map_of h a of
            Some (JObject ps att) \<Rightarrow>
              if ''mapTypeId'' \<in> set (keys ps) \<and> ''mapTypeId'' \<in> set (locked att)
              then Inl TypeError
              else Inr (AList.update a
                (JObject (deleteProp ps ''mapTypeId'') (forget ''mapTypeId'' att)) h)
          | _ \<Rightarrow> Inr h)
     | _ \<Rightarrow> Inr h)"

text \<open>
  \<^verbatim>\<open>fn => prevProps[fn].toString() === nextProps[fn].toString()\<close>, the left operand first.
\<close>

definition sameText :: "heap \<Rightarrow> props \<Rightarrow> props \<Rightarrow> string \<Rightarrow> error + bool" where
  "sameText h prevProps nextProps fn =
    (case toString h (getProp prevProps fn) of
       Inl e \<Rightarrow> Inl e
     | Inr s \<Rightarrow>
         (case toString h (getProp nextProps fn) of
            Inl e \<Rightarrow> Inl e
          | Inr t \<Rightarrow> Inr (s = t)))"

text \<open>
  \<^verbatim>\<open>shouldUpdate(prevProps, nextProps)\<close>. The result is what the call returns or throws,
  together with the heap it leaves behind. \<^verbatim>\<open>&&\<close> evaluates its right operand only when
  the left one is true. A deep comparison that does not return ends in the engine's
  \<^verbatim>\<open>RangeError\<close>.
\<close>

definition shouldUpdate :: "heap \<Rightarrow> props \<Rightarrow> props \<Rightarrow> (error + bool) \<times> heap" where
  "shouldUpdate h prevProps nextProps =
    (case deleteMapTypeId h prevProps of
       Inl e \<Rightarrow> (Inl e, h)
     | Inr h' \<Rightarrow>
         (let prevFuncs = functionsOf h' prevProps;
              nextFuncs = functionsOf h' nextProps
          in case isEqual h' (omit prevProps prevFuncs) (omit nextProps nextFuncs) of
               None \<Rightarrow> (Inl RangeError, h')
             | Some True \<Rightarrow> (every (sameText h' prevProps nextProps) prevFuncs, h')
             | Some False \<Rightarrow> (Inr False, h')))"

section \<open>The script loader of the map view\<close>

text \<open>
  The effect of \<^verbatim>\<open>Map\<close> runs when a view mounts. The page holds what the effect reads and
  writes: what \<^verbatim>\<open>window.google\<close> is (undefined, an object without the constructor
  \<^verbatim>\<open>maps.Map\<close> as another library of the provider may define it, or the object with that
  constructor), the script elements appended to \<^verbatim>\<open>document.head\<close> with the views whose
  \<^verbatim>\<open>onLoad\<close> listens for their \<^verbatim>\<open>load\<close> event, the views for which a map has been constructed, the views whose
  \<^verbatim>\<open>onMount\<close> has been called, and the errors thrown by the effect or by a listener.
  JavaScript runs one handler at a time, so each of mounting, the end of a load and
  unmounting is one step on the page. A view has the \<^verbatim>\<open>onMount\<close> it was given and what a
  call of it does, return or throw.
\<close>

datatype provider = NoGoogle | GoogleWithoutMaps | GoogleMaps

record view =
  view_id :: nat
  onMount :: val
  onMount_throws :: "error option"

record script =
  src :: string
  listeners :: "view list"

record page =
  google :: provider
  head_scripts :: "script list"
  maps :: "nat list"
  onMount_calls :: "nat list"
  thrown :: "error list"

text \<open>
  \<^verbatim>\<open>onLoad\<close> constructs the map of the view and calls \<^verbatim>\<open>onMount\<close> when it is a function.
  \<^verbatim>\<open>new window.google.maps.Map\<close> throws a \<^verbatim>\<open>TypeError\<close> when \<^verbatim>\<open>window.google\<close>, its \<^verbatim>\<open>maps\<close> or the
  constructor is undefined; \<^verbatim>\<open>onMount\<close> is then not called.
\<close>

definition onLoad :: "heap \<Rightarrow> view \<Rightarrow> page \<Rightarrow> page" where
  "onLoad h v p =
    (if google p \<noteq> GoogleMaps then p\<lparr>thrown := thrown p @ [TypeError]\<rparr>
     else
       (let p' = p\<lparr>maps := maps p @ [view_id v]\<rparr>
        in if isFunction h (onMount v)
           then (case onMount_throws v of
                   None \<Rightarrow> p'\<lparr>onMount_calls := onMount_calls p' @ [view_id v]\<rparr>
                 | Some e \<Rightarrow> p'\<lparr>onMount_calls := onMount_calls p' @ [view_id v],
                                thrown := thrown p' @ [e]\<rparr>)
           else p'))"

text \<open>
  The body of the effect, with the value of \<^verbatim>\<open>process.env.GOOGLE_MAPS_API_KEY\<close> as
  \<open>api_key\<close>. It returns the page and, when it registered a listener, the index of the
  script whose listener the cleanup function removes.
\<close>

definition effect :: "string \<Rightarrow> heap \<Rightarrow> view \<Rightarrow> page \<Rightarrow> page \<times> nat option" where
  "effect api_key h v p =
    (if google p = NoGoogle
     then (p\<lparr>head_scripts := head_scripts p @
                [\<lparr>src = ''https://maps.googleapis.com/maps/api/js?key='' @ api_key,
                  listeners = [v]\<rparr>]\<rparr>,
           Some (length (head_scripts p)))
     else (onLoad h v p, None))"

text \<open>The cleanup function: \<^verbatim>\<open>script.removeEventListener(`load`, onLoad)\<close>.\<close>

definition cleanup :: "view \<Rightarrow> nat \<Rightarrow> page \<Rightarrow> page" where
  "cleanup v i p =
    (if i < length (head_scripts p)
     then p\<lparr>head_scripts := (head_scripts p)
            [i := (head_scripts p ! i)\<lparr>listeners := removeAll v (listeners (head_scripts p ! i))\<rparr>]\<rparr>
     else p)"

text \<open>
  The end of the load of script \<open>i\<close>: the provider's script has defined
  \<^verbatim>\<open>window.google.maps\<close>, and the \<^verbatim>\<open>load\<close> listeners of the element run in the order of
  their registration, each whatever the one before has thrown.
\<close>

definition scriptLoaded :: "heap \<Rightarrow> nat \<Rightarrow> page \<Rightarrow> page" where
  "scriptLoaded h i p =
    (if i < length (head_scripts p)
     then foldl (\<lambda>q v. onLoad h v q) (p\<lparr>google := GoogleMaps\<rparr>) (listeners (head_scripts p ! i))
     else p)"

section \<open>The overlay of the modal\<close>

text \<open>
  \<^verbatim>\<open>ModalBehind\<close> is a styled \<^verbatim>\<open>div\<close>: the declarations of its template, in order, with the
  two interpolated functions applied to the props.
\<close>

definition ModalBehind :: "props \<Rightarrow> (string \<times> string) list" where
  "ModalBehind props =
    [(''position'', ''fixed''),
     (''top'', ''0''),
     (''left'', ''0''),
     (''width'', ''100%''),
     (''height'', ''100%''),
     (''background-color'', ''rgba(0, 0, 0, 0.5)''),
     (''display'', ''grid''),
     (''visibility'', if truthy (getProp props ''open'') then ''visible'' else ''hidden''),
     (''opacity'', if truthy (getProp props ''open'') then ''1'' else ''0''),
     (''transition'', ''0.5s''),
     (''z-index'', ''1'')]"

section \<open>What the specification says of the gate\<close>

text \<open>
  When \<^verbatim>\<open>delete prevProps.options.mapTypeId\<close> throws: the previous \<open>options\<close> is \<^verbatim>\<open>undefined\<close>
  or \<^verbatim>\<open>null\<close>, or it is a plain object that holds \<open>mapTypeId\<close> as an own property that is not
  configurable.
\<close>

definition nonConfigurable :: "heap \<Rightarrow> val \<Rightarrow> string \<Rightarrow> bool" where
  "nonConfigurable h v k =
    (case v of
       VRef a \<Rightarrow>
         (case map_of h a of
            Some (JObject ps att) \<Rightarrow> k \<in> set (keys ps) \<and> k \<in> set (locked att)
          | _ \<Rightarrow> False)
     | _ \<Rightarrow> False)"

definition deletionThrows :: "heap \<Rightarrow> props \<Rightarrow> bool" where
  "deletionThrows h prevProps =
    (isNullish (getProp prevProps ''options'')
     \<or> nonConfigurable h (getProp prevProps ''options'') ''mapTypeId'')"

text \<open>The heap once \<^verbatim>\<open>delete prevProps.options.mapTypeId\<close> has run, or has thrown.\<close>

definition heapAfter :: "heap \<Rightarrow> props \<Rightarrow> heap" where
  "heapAfter h prevProps = (case deleteMapTypeId h prevProps of Inl e \<Rightarrow> h | Inr h' \<Rightarrow> h')"

subsection \<open>Structural equality\<close>

text \<open>
  The specification's deep structural equality: a value equals itself; two plain objects
  are equal when they have the same keys and equal values under each key, in whatever
  order the keys come; two arrays are equal when they have the same length and equal
  elements at each index.
\<close>

inductive deepEq :: "heap \<Rightarrow> val \<Rightarrow> val \<Rightarrow> bool" for h :: heap where
  same: "deepEq h v v"
| objects: "map_of h a = Some (JObject ps pa) \<Longrightarrow> map_of h b = Some (JObject qs qa) \<Longrightarrow>
    set (keys ps) = set (keys qs) \<Longrightarrow>
    (\<And>k. k \<in> set (keys ps) \<Longrightarrow> deepEq h (getProp ps k) (getProp qs k)) \<Longrightarrow>
    deepEq h (VRef a) (VRef b)"
| arrays: "map_of h a = Some (JArray xs) \<Longrightarrow> map_of h b = Some (JArray ys) \<Longrightarrow>
    length xs = length ys \<Longrightarrow>
    (\<And>i. i < length xs \<Longrightarrow> deepEq h (xs ! i) (ys ! i)) \<Longrightarrow>
    deepEq h (VRef a) (VRef b)"

text \<open>Two property lists, taken as two objects, are structurally equal alike.\<close>

definition structurallyEqual :: "heap \<Rightarrow> props \<Rightarrow> props \<Rightarrow> bool" where
  "structurallyEqual h ps qs =
    (set (keys ps) = set (keys qs)
     \<and> list_all (\<lambda>k. deepEq h (getProp ps k) (getProp qs k)) (keys ps))"

text \<open>
  The values held by an object, and the relation of an object to the objects it holds. A
  value has a circular reference when an object reached from it is reached from itself;
  a PropertySet has one when one of its property values has.
\<close>

definition valuesOf :: "obj \<Rightarrow> val list" where
  "valuesOf x =
    (case x of
       JObject ps att \<Rightarrow> map (getProp ps) (keys ps)
     | JArray xs \<Rightarrow> xs
     | JFunction s e \<Rightarrow> [])"

definition child :: "heap \<Rightarrow> (addr \<times> addr) set" where
  "child h = {(a, b). \<exists>x. map_of h a = Some x \<and> VRef b \<in> set (valuesOf x)}"

definition reach :: "heap \<Rightarrow> val \<Rightarrow> addr set" where
  "reach h v = {b. \<exists>a. v = VRef a \<and> (a, b) \<in> (child h)\<^sup>*}"

definition circular :: "heap \<Rightarrow> val \<Rightarrow> bool" where
  "circular h v = (\<exists>b\<in>reach h v. (b, b) \<in> (child h)\<^sup>+)"

definition circularProps :: "heap \<Rightarrow> props \<Rightarrow> bool" where
  "circularProps h ps = (\<exists>k\<in>set (keys ps). circular h (getProp ps k))"

subsection \<open>The result\<close>

text \<open>
  The specification's words for the result: the non-callable partition of a PropertySet,
  the textual equality of every callable property named in \<open>previous\<close>, and the conjunction
  of the structural equality of the partitions with that textual equality.
\<close>

definition nonCallables :: "heap \<Rightarrow> props \<Rightarrow> props" where
  "nonCallables h ps = omit ps (functionsOf h ps)"

definition callablesAgree :: "heap \<Rightarrow> props \<Rightarrow> props \<Rightarrow> bool" where
  "callablesAgree h prevProps nextProps =
    list_all (\<lambda>fn. toString h (getProp prevProps fn) = toString h (getProp nextProps fn))
      (functionsOf h prevProps)"

definition renderGateSpec :: "heap \<Rightarrow> props \<Rightarrow> props \<Rightarrow> bool" where
  "renderGateSpec h prevProps nextProps =
    (structurallyEqual h (nonCallables h prevProps) (nonCallables h nextProps)
     \<and> callablesAgree h prevProps nextProps)"

text \<open>
  The first callable name of \<open>previous\<close>, in enumeration order, under which the two props
  do not give the same text; and whether there is one and it names a property of \<open>next\<close>.
\<close>

definition firstMismatch :: "heap \<Rightarrow> props \<Rightarrow> props \<Rightarrow> string option" where
  "firstMismatch h prevProps nextProps =
    find (\<lambda>fn. toString h (getProp prevProps fn) \<noteq> toString h (getProp nextProps fn))
      (functionsOf h prevProps)"

definition textsDiffer :: "heap \<Rightarrow> props \<Rightarrow> props \<Rightarrow> bool" where
  "textsDiffer h prevProps nextProps =
    (case firstMismatch h prevProps nextProps of
       None \<Rightarrow> False
     | Some fn \<Rightarrow> fn \<in> set (keys nextProps))"

subsection \<open>The provider\<close>

text \<open>
  The map provider's write to the options object it was given, \<^verbatim>\<open>options.mapTypeId = v\<close>,
  on the object at address \<open>a\<close>: it changes an own property that is writable, adds the
  property to an object that is extensible, and otherwise fails and leaves the object as
  it is.
\<close>

definition setMapTypeId :: "heap \<Rightarrow> addr \<Rightarrow> val \<Rightarrow> heap" where
  "setMapTypeId h a v =
    (case map_of h a of
       Some (JObject ps att) \<Rightarrow>
         if ''mapTypeId'' \<in> set (keys ps)
         then (if ''mapTypeId'' \<in> set (readonly att) then h
               else AList.update a (JObject (setProp ps ''mapTypeId'' v) att) h)
         else (if extensible att
               then AList.update a
                 (JObject (setProp ps ''mapTypeId'' v) (forget ''mapTypeId'' att)) h
               else h)
     | _ \<Rightarrow> h)"

text \<open>Reading \<^verbatim>\<open>v.k\<close> where \<open>v\<close> refers to a plain object; \<^verbatim>\<open>undefined\<close> elsewhere.\<close>

definition fieldOf :: "heap \<Rightarrow> val \<Rightarrow> string \<Rightarrow> val" where
  "fieldOf h v k =
    (case v of
       VRef a \<Rightarrow> (case map_of h a of Some (JObject ps att) \<Rightarrow> getProp ps k | _ \<Rightarrow> VUndefined)
     | _ \<Rightarrow> VUndefined)"

subsection \<open>Notions of the proofs\<close>

text \<open>
  The keys of a stack; a stack that is another one, or a map with no key but keys of
  that one; the objects from which a value is reached; the stacks whose keys in the heap
  are such objects; the pairs of values that are both plain objects or both arrays; and
  the relation of a held object to its holder, for holders without circular reference.
\<close>

definition keysOf :: "lstack \<Rightarrow> addr set" where
  "keysOf stk = (case stk of ListCache ps \<Rightarrow> fst ` set ps | MapCache m \<Rightarrow> dom m)"

definition shrinks :: "lstack \<Rightarrow> lstack \<Rightarrow> bool" where
  "shrinks stk stk' = (stk' = stk \<or> (\<exists>m. stk' = MapCache m \<and> dom m \<subseteq> keysOf stk))"

definition ancestors :: "heap \<Rightarrow> val \<Rightarrow> addr set" where
  "ancestors h v = {c. \<exists>a. v = VRef a \<and> (c, a) \<in> (child h)\<^sup>+}"

definition onPath :: "heap \<Rightarrow> lstack \<Rightarrow> val \<Rightarrow> val \<Rightarrow> bool" where
  "onPath h stk v w =
    (\<forall>c\<in>keysOf stk. map_of h c \<noteq> None \<longrightarrow> c \<in> ancestors h v \<union> ancestors h w)"

definition sameKind :: "heap \<Rightarrow> val \<Rightarrow> val \<Rightarrow> bool" where
  "sameKind h v w =
    (case (v, w) of
       (VRef a, VRef b) \<Rightarrow>
         (case (map_of h a, map_of h b) of
            (Some (JObject ps pa), Some (JObject qs qa)) \<Rightarrow> True
          | (Some (JArray xs), Some (JArray ys)) \<Rightarrow> True
          | _ \<Rightarrow> False)
     | _ \<Rightarrow> False)"

definition heldBy :: "heap \<Rightarrow> (addr \<times> addr) set" where
  "heldBy h = {(c, a). (a, c) \<in> child h \<and> \<not> circular h (VRef a)}"

subsection \<open>Example renders\<close>

text \<open>The attributes of an object written as a literal.\<close>

abbreviation ordinary :: attrs where
  "ordinary \<equiv> \<lparr>locked = [], readonly = [], extensible = True\<rparr>"

text \<open>
  Two renders of the map view by a parent that builds its props anew each time: the
  options objects 1 and 3 are distinct and structurally equal (their \<open>center\<close> objects list
  the same coordinates in a different order), the provider has written \<open>mapTypeId\<close> into
  the options of the previous render, and the two \<open>onMount\<close> closures 2 and 4 come from the
  same function expression with different captured links. Closure 9 is closure 4 with
  its parameter renamed: another text, the same captured links and the same behaviour.
  Object 10 is the options object of one more render.
\<close>

abbreviation exHeap :: heap where
  "exHeap \<equiv>
    [(1, JObject [(''center'', VRef 5), (''zoom'', VNum 5), (''mapTypeId'', VStr ''roadmap'')]
           ordinary),
     (2, JFunction ''map => addMarkers(links)(map)'' [(''links'', VRef 6)]),
     (3, JObject [(''center'', VRef 7), (''zoom'', VNum 5)] ordinary),
     (4, JFunction ''map => addMarkers(links)(map)'' [(''links'', VRef 8)]),
     (5, JObject [(''lat'', VNum 48), (''lng'', VNum 8)] ordinary),
     (6, JArray []),
     (7, JObject [(''lng'', VNum 8), (''lat'', VNum 48)] ordinary),
     (8, JArray [VStr ''https://wikipedia.org/wiki/Area_51'']),
     (9, JFunction ''m => addMarkers(links)(m)'' [(''links'', VRef 8)]),
     (10, JObject [(''zoom'', VNum 5), (''center'', VRef 5)] ordinary)]"

abbreviation exPrev :: props where
  "exPrev \<equiv> [(''options'', VRef 1), (''onMount'', VRef 2), (''className'', VStr ''map'')]"

abbreviation exNext :: props where
  "exNext \<equiv> [(''options'', VRef 3), (''onMount'', VRef 4), (''className'', VStr ''map'')]"

text \<open>
  Other renders with the closures 2 and 4. A parent that passes \<open>mapTypeId\<close> itself, in
  options it has frozen with \<^verbatim>\<open>Object.freeze\<close>: object 1.
\<close>

abbreviation closures :: heap where
  "closures \<equiv>
    [(2, JFunction ''map => addMarkers(links)(map)'' [(''links'', VRef 6)]),
     (4, JFunction ''map => addMarkers(links)(map)'' [(''links'', VRef 8)]),
     (6, JArray []),
     (8, JArray [VStr ''https://wikipedia.org/wiki/Area_51''])]"

abbreviation frozenHeap :: heap where
  "frozenHeap \<equiv>
    (1, JObject [(''zoom'', VNum 5), (''mapTypeId'', VStr ''roadmap'')]
          \<lparr>locked = [''zoom'', ''mapTypeId''], readonly = [''zoom'', ''mapTypeId''],
           extensible = False\<rparr>)
    # closures"

text \<open>
  A parent that passes \<open>mapTypeId\<close> itself, in a new options object at every render:
  objects 1 and 3.
\<close>

abbreviation taggedHeap :: heap where
  "taggedHeap \<equiv>
    (1, JObject [(''zoom'', VNum 5), (''mapTypeId'', VStr ''roadmap'')] ordinary)
    # (3, JObject [(''zoom'', VNum 5), (''mapTypeId'', VStr ''roadmap'')] ordinary)
    # closures"

text \<open>
  A parent that passes a route that ends in a roundabout: each stop refers to the next
  one, and the last stop, object 14, to itself. The route from stop 11 and the route
  from stop 13 are structurally equal: under \<open>next.next\<close> from the first and under \<open>next\<close>
  from the second is the same stop 14.
\<close>

abbreviation routeHeap :: heap where
  "routeHeap \<equiv>
    (1, JObject [(''zoom'', VNum 5)] ordinary)
    # (11, JObject [(''next'', VRef 12)] ordinary)
    # (12, JObject [(''next'', VRef 13)] ordinary)
    # (13, JObject [(''next'', VRef 14)] ordinary)
    # (14, JObject [(''next'', VRef 14)] ordinary)
    # closures"

text \<open>A page on which nothing has been loaded yet.\<close>

definition freshPage :: page where
  "freshPage =
    \<lparr>google = NoGoogle, head_scripts = [], maps = [], onMount_calls = [], thrown = []\<rparr>"

section \<open>Properties of the helpers\<close>

lemma set_keys: "set (keys ps) = fst ` set ps"
  by (simp add: keys_def)

lemma distinct_keys: "distinct (keys ps)"
  by (simp add: keys_def)

lemma getProp_absent: "k \<notin> set (keys ps) \<Longrightarrow> getProp ps k = VUndefined"
  by (simp add: getProp_def set_keys map_of_eq_None_iff [THEN iffD2])

lemma getProp_present: "getProp ps k \<noteq> VUndefined \<Longrightarrow> k \<in> set (keys ps)"
  using getProp_absent by blast

lemma keys_omit: "keys (omit ps ns) = filter (\<lambda>k. k \<notin> set ns) (keys ps)"
proof -
  have "map fst (filter (\<lambda>(k, v). k \<notin> set ns) ps) = filter (\<lambda>k. k \<notin> set ns) (map fst ps)"
    by (induction ps) auto
  then show ?thesis
    by (simp add: keys_def omit_def remdups_filter)
qed

lemma getProp_omit: "k \<notin> set ns \<Longrightarrow> getProp (omit ps ns) k = getProp ps k"
  unfolding getProp_def omit_def by (induction ps) auto

lemma getProp_setProp: "getProp (setProp ps k v) k' = (if k' = k then v else getProp ps k')"
  by (simp add: getProp_def setProp_def update_conv')

lemma keys_setProp: "k \<in> set (keys ps) \<Longrightarrow> keys (setProp ps k v) = keys ps"
  by (simp add: keys_def setProp_def update_keys)

lemma getProp_deleteProp:
  "getProp (deleteProp ps k) k' = (if k' = k then VUndefined else getProp ps k')"
  by (simp add: getProp_def deleteProp_def delete_conv')

lemma keys_deleteProp: "keys (deleteProp ps k) = removeAll k (keys ps)"
  by (simp add: keys_def deleteProp_def delete_keys remdups_filter removeAll_filter_not_eq)

lemma deleteProp_setProp: "deleteProp (setProp ps k v) k = deleteProp ps k"
  by (simp add: deleteProp_def setProp_def delete_update_same)

lemma forget_forget: "forget k (forget k att) = forget k att"
  by (simp add: forget_def)

lemma in_functionsOf:
  "fn \<in> set (functionsOf h ps) \<longleftrightarrow> fn \<in> set (keys ps) \<and> isFunction h (getProp ps fn)"
  by (auto simp: functionsOf_def)

lemma toString_function: "isFunction h v \<Longrightarrow> \<exists>s. toString h v = Inr s"
  by (auto simp: isFunction_def toString_def split: val.splits option.splits obj.splits)

lemma keys_eq_iff:
  "(length (keys ps) = length (keys qs) \<and> set (keys ps) \<subseteq> set (keys qs)) = (set (keys ps) = set (keys qs))"
proof
  assume "length (keys ps) = length (keys qs) \<and> set (keys ps) \<subseteq> set (keys qs)"
  then have "card (set (keys ps)) = card (set (keys qs))" "set (keys ps) \<subseteq> set (keys qs)"
    by (simp_all add: distinct_card distinct_keys)
  then show "set (keys ps) = set (keys qs)" by (simp add: card_subset_eq)
next
  assume eq: "set (keys ps) = set (keys qs)"
  then have "card (set (keys ps)) = card (set (keys qs))" by simp
  then have "length (keys ps) = length (keys qs)" by (simp add: distinct_card distinct_keys)
  with eq show "length (keys ps) = length (keys qs) \<and> set (keys ps) \<subseteq> set (keys qs)" by simp
qed

subsection \<open>The loop over the callable names\<close>

lemma every_all_Inr:
  "(\<And>x. x \<in> set xs \<Longrightarrow> p x = Inr (q x)) \<Longrightarrow> every p xs = Inr (list_all q xs)"
  by (induction xs) auto

lemma every_True: "every p xs = Inr True \<longleftrightarrow> (\<forall>x\<in>set xs. p x = Inr True)"
  by (induction xs) (auto split: sum.splits)

lemma every_find:
  "every p xs = (case find (\<lambda>x. p x \<noteq> Inr True) xs of None \<Rightarrow> Inr True | Some x \<Rightarrow> p x)"
  by (induction xs) (auto split: sum.splits)

lemma every_error: "every p xs = Inl e \<Longrightarrow> \<exists>x\<in>set xs. p x = Inl e"
  by (induction xs) (auto split: sum.splits if_splits)

lemma every_cong_set: "(\<And>x. x \<in> set xs \<Longrightarrow> p x = q x) \<Longrightarrow> every p xs = every q xs"
  by (induction xs) (auto split: sum.splits)

lemma every_first_error:
  assumes "k \<in> set xs" and "p k = Inl e"
    and "\<And>x. x \<in> set xs \<Longrightarrow> x \<noteq> k \<Longrightarrow> p x = Inr True"
  shows "every p xs = Inl e"
  using assms
proof (induction xs)
  case Nil
  then show ?case by simp
next
  case (Cons a xs)
  show ?case
  proof (cases "a = k")
    case True
    with Cons.prems(2) show ?thesis by simp
  next
    case False
    with Cons.prems have "p a = Inr True" and "k \<in> set xs" by auto
    with Cons show ?thesis by simp
  qed
qed

lemma sameText_functions:
  assumes "isFunction h (getProp p fn)" and "isFunction h (getProp n fn)"
  shows "sameText h p n fn = Inr (toString h (getProp p fn) = toString h (getProp n fn))"
proof -
  from assms obtain s t
    where "toString h (getProp p fn) = Inr s" and "toString h (getProp n fn) = Inr t"
    using toString_function by blast
  then show ?thesis
    by (simp add: sameText_def)
qed

text \<open>Under a callable name of the previous props, the texts are found equal exactly when
  they are.\<close>

lemma sameText_True:
  assumes "isFunction h (getProp p fn)"
  shows "(sameText h p n fn = Inr True) = (toString h (getProp p fn) = toString h (getProp n fn))"
proof -
  from assms obtain s where "toString h (getProp p fn) = Inr s"
    using toString_function by blast
  then show ?thesis
    by (auto simp: sameText_def split: sum.splits)
qed

subsection \<open>The deletion step\<close>

lemma deleteMapTypeId_throws:
  "(deleteMapTypeId h p = Inl e) = (e = TypeError \<and> deletionThrows h p)"
  by (auto simp: deleteMapTypeId_def deletionThrows_def nonConfigurable_def isNullish_def
      split: val.splits option.splits obj.splits)

lemma deleteMapTypeId_cases:
  obtains (throws) "deletionThrows h p" "deleteMapTypeId h p = Inl TypeError"
  | (deleted) a ps att where "getProp p ''options'' = VRef a" "map_of h a = Some (JObject ps att)"
      "deleteMapTypeId h p =
         Inr (AList.update a (JObject (deleteProp ps ''mapTypeId'') (forget ''mapTypeId'' att)) h)"
  | (same) "\<not> deletionThrows h p" "deleteMapTypeId h p = Inr h"
proof (cases "deleteMapTypeId h p")
  case (Inl e)
  then show ?thesis
    using throws by (simp add: deleteMapTypeId_throws)
next
  case (Inr h')
  then have nt: "\<not> deletionThrows h p"
    using deleteMapTypeId_throws [of h p TypeError] by simp
  show ?thesis
  proof (cases "getProp p ''options''")
    case (VRef a)
    show ?thesis
    proof (cases "map_of h a")
      case None
      with VRef nt show ?thesis
        by (intro same) (simp_all add: deleteMapTypeId_def)
    next
      case (Some x)
      with VRef nt Inr show ?thesis
        by (cases x) (auto simp: deleteMapTypeId_def intro: same deleted split: if_splits)
    qed
  qed (use Inr nt in \<open>auto simp: deleteMapTypeId_def intro: same\<close>)
qed

lemma deleted_heapAfter: "deleteMapTypeId h p = Inr h' \<Longrightarrow> heapAfter h p = h'"
  by (simp add: heapAfter_def)

lemma deletion_heapAfter: "\<not> deletionThrows h p \<Longrightarrow> deleteMapTypeId h p = Inr (heapAfter h p)"
  by (cases h p rule: deleteMapTypeId_cases) (simp_all add: heapAfter_def)

lemma snd_shouldUpdate: "snd (shouldUpdate h p n) = heapAfter h p"
  by (simp add: shouldUpdate_def heapAfter_def Let_def split: sum.splits option.splits bool.splits)

text \<open>The deletion turns a plain object into a plain object: which values are functions,
  and their texts, stay as they were.\<close>

lemma isFunction_update_object:
  "map_of h a = Some (JObject ps pa) \<Longrightarrow>
    isFunction (AList.update a (JObject qs qa) h) v = isFunction h v"
  by (auto simp: isFunction_def update_conv' split: val.splits option.splits obj.splits)

lemma toString_update_object:
  "map_of h a = Some (JObject ps pa) \<Longrightarrow>
    toString (AList.update a (JObject qs qa) h) v = toString h v"
  by (auto simp: toString_def update_conv' split: val.splits option.splits obj.splits)

lemma isFunction_heapAfter: "isFunction (heapAfter h p) v = isFunction h v"
  by (cases h p rule: deleteMapTypeId_cases) (auto simp: heapAfter_def isFunction_update_object)

lemma toString_heapAfter: "toString (heapAfter h p) v = toString h v"
  by (cases h p rule: deleteMapTypeId_cases) (auto simp: heapAfter_def toString_update_object)

lemma functionsOf_heapAfter: "functionsOf (heapAfter h p) ps = functionsOf h ps"
  by (simp add: functionsOf_def isFunction_heapAfter)

subsection \<open>The stack of the deep comparison\<close>

lemma stackGet_keysOf: "(stackGet stk k \<noteq> None) = (k \<in> keysOf stk)"
  by (cases stk) (auto simp: stackGet_def keysOf_def map_of_eq_None_iff)

lemma keysOf_stackSet: "keysOf (stackSet stk k v) = insert k (keysOf stk)"
  by (cases stk) (auto simp: stackSet_def keysOf_def dom_map_of_conv_image_fst)

lemma stacked_keysOf: "stacked stk a b = (a \<in> keysOf stk \<and> b \<in> keysOf stk)"
  using stackGet_keysOf [of stk a] stackGet_keysOf [of stk b] by (simp add: stacked_def)

lemma shrinks_refl: "shrinks stk stk"
  by (simp add: shrinks_def)

lemma shrinks_keysOf: "shrinks stk stk' \<Longrightarrow> keysOf stk' \<subseteq> keysOf stk"
  by (auto simp: shrinks_def keysOf_def)

lemma shrinks_trans: "shrinks s1 s2 \<Longrightarrow> shrinks s2 s3 \<Longrightarrow> shrinks s1 s3"
  using shrinks_keysOf [of s1 s2] by (auto simp: shrinks_def)

text \<open>
  Two entries are put on the stack for a comparison and deleted after it: what is left is
  the stack of before, or a map with no new key.
\<close>

lemma stack_restored:
  assumes ab: "a \<noteq> b" and r: "shrinks (stackSet (stackSet stk a b) b a) r"
  shows "shrinks stk (stackDelete (stackDelete r a) b)"
proof -
  let ?S = "stackSet (stackSet stk a b) b a"
  have keys: "keysOf ?S = insert b (insert a (keysOf stk))"
    by (simp add: keysOf_stackSet)
  have pushed: "(\<exists>ps. stk = ListCache ps \<and> ?S = ListCache ((b, a) # (a, b) # ps))
      \<or> (\<exists>m. ?S = MapCache m)"
    by (cases stk) (auto simp: stackSet_def)
  from r consider (same) "r = ?S" | (map) m where "r = MapCache m" "dom m \<subseteq> keysOf ?S"
    by (auto simp: shrinks_def)
  then show ?thesis
  proof cases
    case map
    then have "stackDelete (stackDelete r a) b = MapCache (m(a := None, b := None))"
      by (simp add: stackDelete_def)
    moreover have "dom (m(a := None, b := None)) \<subseteq> keysOf stk"
      using map(2) keys by auto
    ultimately show ?thesis
      by (simp add: shrinks_def)
  next
    case same
    from pushed show ?thesis
    proof
      assume "\<exists>ps. stk = ListCache ps \<and> ?S = ListCache ((b, a) # (a, b) # ps)"
      then show ?thesis
        using ab same by (auto simp: stackDelete_def shrinks_def)
    next
      assume "\<exists>m. ?S = MapCache m"
      then obtain m where m: "?S = MapCache m" ..
      with keys have "dom m = insert b (insert a (keysOf stk))"
        by (simp add: keysOf_def)
      then have "dom (m(a := None, b := None)) \<subseteq> keysOf stk"
        by auto
      moreover have "stackDelete (stackDelete r a) b = MapCache (m(a := None, b := None))"
        using same m by (simp add: stackDelete_def)
      ultimately show ?thesis
        by (simp add: shrinks_def)
    qed
  qed
qed

text \<open>No object of the heap is at the two addresses that \<open>isEqual\<close> takes.\<close>

lemma freshAddr_above: "a \<in> fst ` set h \<Longrightarrow> a < freshAddr h"
proof -
  have "a \<in> set xs \<Longrightarrow> a \<le> foldr max xs 0" for xs :: "nat list"
    by (induction xs) auto
  from this [of "map fst h"] show "a \<in> fst ` set h \<Longrightarrow> a < freshAddr h"
    by (simp add: freshAddr_def less_Suc_eq_le)
qed

lemma freshAddr_free: "map_of h (freshAddr h) = None" "map_of h (Suc (freshAddr h)) = None"
  using freshAddr_above [of "freshAddr h" h] freshAddr_above [of "Suc (freshAddr h)" h]
  by (auto simp: map_of_eq_None_iff)

subsection \<open>The cases of the deep comparison\<close>

lemma deepCompare_nil: "deepCompare h stk (Pairs []) = Some (True, stk)"
  by (subst deepCompare.simps) simp

lemma deepCompare_cons:
  "deepCompare h stk (Pairs (z # rest)) =
    (if strictEq (fst z) (snd z) then deepCompare h stk (Pairs rest)
     else Option.bind (deepCompare h stk (Values (fst z) (snd z)))
       (\<lambda>r. if fst r then deepCompare h (snd r) (Pairs rest) else Some (False, snd r)))"
  by (subst deepCompare.simps) simp

lemma deepCompare_strict: "strictEq v w \<Longrightarrow> deepCompare h stk (Values v w) = Some (True, stk)"
  by (subst deepCompare.simps) simp

lemma deepCompare_other:
  assumes "\<not> strictEq v w" and "\<not> sameKind h v w"
  shows "deepCompare h stk (Values v w) = Some (v = VNaN \<and> w = VNaN, stk)"
  using assms
  by (subst deepCompare.simps)
    (auto simp: sameKind_def isNullish_def isObjectLike_def
      split: val.splits option.splits obj.splits)

lemma deepCompare_objects:
  assumes "a \<noteq> b" and "map_of h a = Some (JObject ps pa)" and "map_of h b = Some (JObject qs qa)"
  shows "deepCompare h stk (Values (VRef a) (VRef b)) =
    (if set (keys ps) \<noteq> set (keys qs) then Some (False, stk)
     else if stacked stk a b then Some (stackGet stk a = Some b \<and> stackGet stk b = Some a, stk)
     else Option.bind
       (deepCompare h (stackSet (stackSet stk a b) b a)
          (Pairs (map (\<lambda>k. (getProp ps k, getProp qs k)) (keys ps))))
       (\<lambda>r. Some (fst r, stackDelete (stackDelete (snd r) a) b)))"
  using assms keys_eq_iff [of ps qs]
  by (subst deepCompare.simps) (auto simp: strictEq_def isNullish_def isObjectLike_def)

lemma deepCompare_arrays:
  assumes "a \<noteq> b" and "map_of h a = Some (JArray xs)" and "map_of h b = Some (JArray ys)"
  shows "deepCompare h stk (Values (VRef a) (VRef b)) =
    (if length xs \<noteq> length ys then Some (False, stk)
     else if stacked stk a b then Some (stackGet stk a = Some b \<and> stackGet stk b = Some a, stk)
     else Option.bind
       (deepCompare h (stackSet (stackSet stk a b) b a) (Pairs (zip xs ys)))
       (\<lambda>r. Some (fst r, stackDelete (stackDelete (snd r) a) b)))"
  using assms
  by (subst deepCompare.simps) (auto simp: strictEq_def isNullish_def isObjectLike_def)

text \<open>Values compared with themselves are equal: the loop takes no look into them.\<close>

lemma deepCompare_same: "deepCompare h stk (Values v v) = Some (True, stk)"
  by (cases "v = VNaN")
    (simp_all add: deepCompare_strict strictEq_def deepCompare_other sameKind_def)

lemma deepCompare_pairs_same:
  "deepCompare h stk (Pairs (map (\<lambda>x. (f x, f x)) xs)) = Some (True, stk)"
  by (induction xs) (simp_all add: deepCompare_nil deepCompare_cons deepCompare_same)

lemma isEqual_refl: "isEqual h ps ps = Some True"
  by (simp add: isEqual_def deepCompare_pairs_same)

text \<open>Objects that are found deeply equal have the same keys.\<close>

lemma isEqual_keys:
  assumes "isEqual h ps qs = Some True"
  shows "set (keys ps) = set (keys qs)"
  using assms keys_eq_iff [of ps qs] by (auto simp: isEqual_def split: if_splits)

subsection \<open>Deep equality is structural equality\<close>

text \<open>
  Where no object reached from the first value is reached from itself, the stack of
  the deep comparison never answers, the comparison returns, and what it returns is the
  structural equality of the specification.
\<close>

lemma deepEq_other: "\<not> sameKind h v w \<Longrightarrow> deepEq h v w = (v = w)"
  by (auto elim!: deepEq.cases intro: deepEq.same simp: sameKind_def)

lemma deepEq_objects:
  assumes "a \<noteq> b" and "map_of h a = Some (JObject ps pa)" and "map_of h b = Some (JObject qs qa)"
  shows "deepEq h (VRef a) (VRef b) =
    (set (keys ps) = set (keys qs) \<and>
     list_all (\<lambda>k. deepEq h (getProp ps k) (getProp qs k)) (keys ps))"
  using assms by (auto elim!: deepEq.cases intro: deepEq.objects simp: list_all_iff)

lemma deepEq_arrays:
  assumes "a \<noteq> b" and "map_of h a = Some (JArray xs)" and "map_of h b = Some (JArray ys)"
  shows "deepEq h (VRef a) (VRef b) =
    (length xs = length ys \<and> list_all (\<lambda>z. deepEq h (fst z) (snd z)) (zip xs ys))"
proof -
  have "list_all (\<lambda>z. deepEq h (fst z) (snd z)) (zip xs ys)
      = (\<forall>i<length xs. deepEq h (xs ! i) (ys ! i))" if "length xs = length ys"
    using that by (auto simp: list_all_length)
  with assms show ?thesis
    by (auto elim!: deepEq.cases intro: deepEq.arrays)
qed

lemma deepEq_function: "isFunction h v \<Longrightarrow> deepEq h v w \<Longrightarrow> w = v"
  by (auto elim!: deepEq.cases simp: isFunction_def)

lemma deepEq_isFunction: "deepEq h v w \<Longrightarrow> isFunction h v = isFunction h w"
  by (auto elim!: deepEq.cases simp: isFunction_def)

lemma deepCompare_easy:
  assumes "strictEq v w \<or> \<not> sameKind h v w"
  shows "deepCompare h stk (Values v w) = Some (deepEq h v w, stk)"
proof (cases "strictEq v w")
  case True
  then show ?thesis
    by (auto simp: deepCompare_strict strictEq_def intro: deepEq.same)
next
  case False
  with assms show ?thesis
    by (auto simp: deepCompare_other deepEq_other strictEq_def)
qed

lemma child_object:
  "map_of h a = Some (JObject ps pa) \<Longrightarrow> k \<in> set (keys ps) \<Longrightarrow> getProp ps k = VRef c \<Longrightarrow>
    (a, c) \<in> child h"
  by (force simp: child_def valuesOf_def)

lemma child_array:
  "map_of h a = Some (JArray xs) \<Longrightarrow> VRef c \<in> set xs \<Longrightarrow> (a, c) \<in> child h"
  by (auto simp: child_def valuesOf_def)

lemma finite_child: "finite (child h)"
proof -
  have "child h \<subseteq> (\<Union>p\<in>set h. {fst p} \<times> (VRef -` set (valuesOf (snd p))))"
    by (force simp: child_def dest: map_of_SomeD)
  moreover have "finite (\<Union>p\<in>set h. {fst p} \<times> (VRef -` set (valuesOf (snd p))))"
    by (auto intro!: finite_vimageI simp: inj_on_def)
  ultimately show ?thesis
    by (rule finite_subset)
qed

lemma circular_self: "(a, a) \<in> (child h)\<^sup>+ \<Longrightarrow> circular h (VRef a)"
  by (auto simp: circular_def reach_def)

lemma circular_child:
  assumes "(a, c) \<in> child h" and "circular h (VRef c)"
  shows "circular h (VRef a)"
  using assms by (auto simp: circular_def reach_def intro: converse_rtrancl_into_rtrancl)

lemma circular_below:
  assumes "(a, b) \<in> (child h)\<^sup>*" and "(b, b) \<in> (child h)\<^sup>+"
  shows "circular h (VRef a)"
  using assms by (auto simp: circular_def reach_def)

lemma wf_heldBy: "wf (heldBy h)"
proof (rule finite_acyclic_wf)
  have "heldBy h \<subseteq> (child h)\<inverse>"
    by (auto simp: heldBy_def)
  then show "finite (heldBy h)"
    by (rule finite_subset) (simp add: finite_child)
next
  show "acyclic (heldBy h)"
  proof (rule acyclicI, rule allI, rule notI)
    fix x
    assume loop: "(x, x) \<in> (heldBy h)\<^sup>+"
    have "heldBy h \<subseteq> (child h)\<inverse>"
      by (auto simp: heldBy_def)
    then have "(heldBy h)\<^sup>+ \<subseteq> ((child h)\<inverse>)\<^sup>+"
      by (rule trancl_mono_subset)
    with loop have "(x, x) \<in> (child h)\<^sup>+"
      by (auto simp: trancl_converse)
    then have "circular h (VRef x)"
      by (rule circular_self)
    moreover from loop obtain z where "(z, x) \<in> heldBy h"
      by (auto dest: tranclD2)
    ultimately show False
      by (simp add: heldBy_def)
  qed
qed

lemma not_stacked:
  assumes nc: "\<not> circular h (VRef a)" and path: "onPath h stk (VRef a) (VRef b)"
    and a: "map_of h a \<noteq> None" and b: "map_of h b \<noteq> None"
  shows "\<not> stacked stk a b"
proof
  assume "stacked stk a b"
  then have "a \<in> keysOf stk" and "b \<in> keysOf stk"
    by (simp_all add: stacked_keysOf)
  with path a b have
    a': "(a, a) \<in> (child h)\<^sup>+ \<or> (a, b) \<in> (child h)\<^sup>+" and
    b': "(b, a) \<in> (child h)\<^sup>+ \<or> (b, b) \<in> (child h)\<^sup>+"
    by (auto simp: onPath_def ancestors_def)
  from nc have naa: "(a, a) \<notin> (child h)\<^sup>+"
    using circular_self by blast
  with a' have ab: "(a, b) \<in> (child h)\<^sup>+"
    by simp
  from b' show False
  proof
    assume "(b, a) \<in> (child h)\<^sup>+"
    with ab have "(a, a) \<in> (child h)\<^sup>+"
      by (rule trancl_trans)
    with naa show False ..
  next
    assume "(b, b) \<in> (child h)\<^sup>+"
    with ab have "circular h (VRef a)"
      by (intro circular_below [of a b]) (simp_all add: trancl_into_rtrancl)
    with nc show False ..
  qed
qed

lemma onPath_child:
  assumes path: "onPath h stk (VRef a) (VRef b)"
    and ca: "(a, c) \<in> child h" and db: "(b, d) \<in> child h"
    and S: "keysOf S \<subseteq> insert b (insert a (keysOf stk))"
  shows "onPath h S (VRef c) (VRef d)"
proof -
  have "ancestors h (VRef a) \<subseteq> ancestors h (VRef c)" "a \<in> ancestors h (VRef c)"
    using ca by (auto simp: ancestors_def intro: trancl_into_trancl)
  moreover have "ancestors h (VRef b) \<subseteq> ancestors h (VRef d)" "b \<in> ancestors h (VRef d)"
    using db by (auto simp: ancestors_def intro: trancl_into_trancl)
  ultimately show ?thesis
    using path S unfolding onPath_def by blast
qed

text \<open>The loop, where each comparison of two values returns their structural equality.\<close>

lemma deepCompare_pairs:
  assumes each: "\<And>x y S. (x, y) \<in> set zs \<Longrightarrow> keysOf S \<subseteq> K \<Longrightarrow>
      \<exists>S'. deepCompare h S (Values x y) = Some (deepEq h x y, S') \<and> shrinks S S'"
    and stk: "keysOf stk \<subseteq> K"
  shows "\<exists>stk'. deepCompare h stk (Pairs zs)
      = Some (list_all (\<lambda>z. deepEq h (fst z) (snd z)) zs, stk') \<and> shrinks stk stk'"
  using assms
proof (induction zs arbitrary: stk)
  case Nil
  then show ?case
    by (simp add: deepCompare_nil shrinks_refl)
next
  case (Cons z zs)
  obtain x y where z: "z = (x, y)"
    by (cases z)
  from Cons.prems(1) [of x y stk] z Cons.prems(2) obtain S'
    where S': "deepCompare h stk (Values x y) = Some (deepEq h x y, S')" "shrinks stk S'"
    by auto
  show ?case
  proof (cases "deepEq h x y")
    case False
    then have ns: "\<not> strictEq x y"
      by (auto simp: strictEq_def intro: deepEq.same)
    with False S' z show ?thesis
      by (auto simp: deepCompare_cons)
  next
    case True
    have rest: "\<exists>stk'. deepCompare h S (Pairs zs)
        = Some (list_all (\<lambda>z. deepEq h (fst z) (snd z)) zs, stk') \<and> shrinks S stk'"
      if "keysOf S \<subseteq> K" for S
      using Cons.prems(1) that by (intro Cons.IH) auto
    show ?thesis
    proof (cases "strictEq x y")
      case se: True
      from rest [OF Cons.prems(2)] se True z show ?thesis
        by (auto simp: deepCompare_cons)
    next
      case se: False
      have "keysOf S' \<subseteq> K"
        using shrinks_keysOf [OF S'(2)] Cons.prems(2) by auto
      from rest [OF this] obtain stk'
        where "deepCompare h S' (Pairs zs)
          = Some (list_all (\<lambda>z. deepEq h (fst z) (snd z)) zs, stk')" "shrinks S' stk'"
        by auto
      with S' se True z show ?thesis
        by (auto simp: deepCompare_cons intro: shrinks_trans)
    qed
  qed
qed

lemma deepCompare_ref:
  "\<not> circular h (VRef a) \<Longrightarrow> (sameKind h (VRef a) w \<Longrightarrow> onPath h stk (VRef a) w) \<Longrightarrow>
    \<exists>stk'. deepCompare h stk (Values (VRef a) w) = Some (deepEq h (VRef a) w, stk')
      \<and> shrinks stk stk'"
proof (induction a arbitrary: w stk rule: wf_induct_rule [OF wf_heldBy [of h]])
  case (1 a)
  note nc = \<open>\<not> circular h (VRef a)\<close>
  show ?case
  proof (cases "strictEq (VRef a) w \<or> \<not> sameKind h (VRef a) w")
    case True
    then show ?thesis
      by (auto simp: deepCompare_easy shrinks_refl)
  next
    case False
    then have sk: "sameKind h (VRef a) w" and ns: "\<not> strictEq (VRef a) w"
      by simp_all
    from sk obtain b where w: "w = VRef b"
      by (auto simp: sameKind_def split: val.splits)
    from ns w have ab: "a \<noteq> b"
      by (simp add: strictEq_def)
    from 1(3) sk w have path: "onPath h stk (VRef a) (VRef b)"
      by simp
    from sk w have inh: "map_of h a \<noteq> None" "map_of h b \<noteq> None"
      by (auto simp: sameKind_def split: option.splits obj.splits)
    have nst: "\<not> stacked stk a b"
      using nc path inh by (rule not_stacked)
    let ?S = "stackSet (stackSet stk a b) b a"
    have keysS: "keysOf ?S = insert b (insert a (keysOf stk))"
      by (simp add: keysOf_stackSet)
    have held: "\<exists>S'. deepCompare h S (Values x y) = Some (deepEq h x y, S') \<and> shrinks S S'"
      if x: "\<And>c. x = VRef c \<Longrightarrow> (a, c) \<in> child h"
        and y: "\<And>d. y = VRef d \<Longrightarrow> (b, d) \<in> child h"
        and S: "keysOf S \<subseteq> keysOf ?S" for x y S
    proof (cases "strictEq x y \<or> \<not> sameKind h x y")
      case True
      then show ?thesis
        by (auto simp: deepCompare_easy shrinks_refl)
    next
      case False
      then obtain c d where c: "x = VRef c" and d: "y = VRef d"
        by (auto simp: sameKind_def split: val.splits)
      from x [OF c] nc have "(c, a) \<in> heldBy h"
        by (simp add: heldBy_def)
      moreover have "\<not> circular h (VRef c)"
        using x [OF c] nc circular_child by blast
      moreover have "onPath h S (VRef c) y"
        unfolding d using path x [OF c] y [OF d] S [unfolded keysS] by (rule onPath_child)
      ultimately show ?thesis
        unfolding c by (intro 1(1)) simp_all
    qed
    from sk w consider
      (objects) ps pa qs qa
        where "map_of h a = Some (JObject ps pa)" "map_of h b = Some (JObject qs qa)"
    | (arrays) xs ys where "map_of h a = Some (JArray xs)" "map_of h b = Some (JArray ys)"
      by (auto simp: sameKind_def split: option.splits obj.splits)
    then show ?thesis
    proof cases
      case objects
      show ?thesis
      proof (cases "set (keys ps) = set (keys qs)")
        case False
        then show ?thesis
          by (simp add: w deepCompare_objects [OF ab objects] deepEq_objects [OF ab objects]
              shrinks_refl)
      next
        case True
        let ?zs = "map (\<lambda>k. (getProp ps k, getProp qs k)) (keys ps)"
        have "\<exists>stk'. deepCompare h ?S (Pairs ?zs)
            = Some (list_all (\<lambda>z. deepEq h (fst z) (snd z)) ?zs, stk') \<and> shrinks ?S stk'"
        proof (rule deepCompare_pairs [where K = "keysOf ?S"])
          fix x y S
          assume "(x, y) \<in> set ?zs" and S: "keysOf S \<subseteq> keysOf ?S"
          then obtain k where k: "k \<in> set (keys ps)" "x = getProp ps k" "y = getProp qs k"
            by auto
          show "\<exists>S'. deepCompare h S (Values x y) = Some (deepEq h x y, S') \<and> shrinks S S'"
            using k True objects by (intro held S) (auto intro: child_object)
        qed simp
        then obtain stk' where loop: "deepCompare h ?S (Pairs ?zs)
            = Some (list_all (\<lambda>z. deepEq h (fst z) (snd z)) ?zs, stk')" "shrinks ?S stk'"
          by auto
        have "shrinks stk (stackDelete (stackDelete stk' a) b)"
          using ab loop(2) by (rule stack_restored)
        moreover have "list_all (\<lambda>z. deepEq h (fst z) (snd z)) ?zs = deepEq h (VRef a) (VRef b)"
          using True by (simp add: deepEq_objects [OF ab objects] list_all_iff)
        ultimately show ?thesis
          using True nst loop(1) by (auto simp: w deepCompare_objects [OF ab objects])
      qed
    next
      case arrays
      show ?thesis
      proof (cases "length xs = length ys")
        case False
        then show ?thesis
          by (simp add: w deepCompare_arrays [OF ab arrays] deepEq_arrays [OF ab arrays]
              shrinks_refl)
      next
        case True
        have "\<exists>stk'. deepCompare h ?S (Pairs (zip xs ys))
            = Some (list_all (\<lambda>z. deepEq h (fst z) (snd z)) (zip xs ys), stk')
              \<and> shrinks ?S stk'"
        proof (rule deepCompare_pairs [where K = "keysOf ?S"])
          fix x y S
          assume xy: "(x, y) \<in> set (zip xs ys)" and S: "keysOf S \<subseteq> keysOf ?S"
          then have "x \<in> set xs" "y \<in> set ys"
            by (auto dest: set_zip_leftD set_zip_rightD)
          then show "\<exists>S'. deepCompare h S (Values x y) = Some (deepEq h x y, S') \<and> shrinks S S'"
            using arrays by (intro held S) (auto intro: child_array)
        qed simp
        then obtain stk' where loop: "deepCompare h ?S (Pairs (zip xs ys))
            = Some (list_all (\<lambda>z. deepEq h (fst z) (snd z)) (zip xs ys), stk')"
            "shrinks ?S stk'"
          by auto
        have "shrinks stk (stackDelete (stackDelete stk' a) b)"
          using ab loop(2) by (rule stack_restored)
        then show ?thesis
          using True nst loop(1)
          by (auto simp: w deepCompare_arrays [OF ab arrays] deepEq_arrays [OF ab arrays])
      qed
    qed
  qed
qed

lemma deepCompare_deepEq:
  assumes "\<not> circular h v" and "sameKind h v w \<Longrightarrow> onPath h stk v w"
  shows "\<exists>stk'. deepCompare h stk (Values v w) = Some (deepEq h v w, stk') \<and> shrinks stk stk'"
proof (cases "strictEq v w \<or> \<not> sameKind h v w")
  case True
  then show ?thesis
    by (auto simp: deepCompare_easy shrinks_refl)
next
  case False
  then obtain a where "v = VRef a"
    by (auto simp: sameKind_def split: val.splits)
  with assms show ?thesis
    by (auto intro: deepCompare_ref)
qed

lemma isEqual_structural:
  assumes "\<not> circularProps h ps"
  shows "isEqual h ps qs = Some (structurallyEqual h ps qs)"
proof (cases "set (keys ps) = set (keys qs)")
  case False
  then show ?thesis
    using keys_eq_iff [of ps qs] by (auto simp: isEqual_def structurallyEqual_def)
next
  case True
  let ?S = "stackSet (stackSet (ListCache []) (freshAddr h) (Suc (freshAddr h)))
      (Suc (freshAddr h)) (freshAddr h)"
  let ?zs = "map (\<lambda>k. (getProp ps k, getProp qs k)) (keys ps)"
  have "keysOf (ListCache []) = {}"
    by (simp add: keysOf_def)
  then have keysS: "keysOf ?S = {freshAddr h, Suc (freshAddr h)}"
    by (auto simp: keysOf_stackSet)
  have "\<exists>stk'. deepCompare h ?S (Pairs ?zs)
      = Some (list_all (\<lambda>z. deepEq h (fst z) (snd z)) ?zs, stk') \<and> shrinks ?S stk'"
  proof (rule deepCompare_pairs [where K = "keysOf ?S"])
    fix x y S
    assume "(x, y) \<in> set ?zs" and S: "keysOf S \<subseteq> keysOf ?S"
    then obtain k where k: "k \<in> set (keys ps)" "x = getProp ps k"
      by auto
    with assms have "\<not> circular h x"
      by (auto simp: circularProps_def)
    moreover have "onPath h S x y"
      using S keysS freshAddr_free [of h] by (auto simp: onPath_def)
    ultimately show "\<exists>S'. deepCompare h S (Values x y) = Some (deepEq h x y, S') \<and> shrinks S S'"
      by (intro deepCompare_deepEq)
  qed simp
  then obtain stk' where "deepCompare h ?S (Pairs ?zs)
      = Some (list_all (\<lambda>z. deepEq h (fst z) (snd z)) ?zs, stk')"
    by auto
  with True show ?thesis
    using keys_eq_iff [of ps qs]
    by (simp add: isEqual_def structurallyEqual_def list_all_iff)
qed

text \<open>The deletion step adds no reference, hence no circular one.\<close>

lemma child_update_subset:
  assumes "map_of h a = Some (JObject ps pa)"
  shows "child (AList.update a (JObject (deleteProp ps k) qa) h) \<subseteq> child h"
proof -
  have "set (valuesOf (JObject (deleteProp ps k) qa)) \<subseteq> set (valuesOf (JObject ps pa))"
    by (auto simp: valuesOf_def keys_deleteProp getProp_deleteProp)
  with assms show ?thesis
    by (auto simp: child_def update_conv' split: if_splits)
qed

lemma child_heapAfter: "child (heapAfter h p) \<subseteq> child h"
  by (cases h p rule: deleteMapTypeId_cases) (auto simp: heapAfter_def dest: child_update_subset [THEN subsetD])

lemma circular_heapAfter: "circular (heapAfter h p) v \<Longrightarrow> circular h v"
  using rtrancl_mono [OF child_heapAfter [of h p]] trancl_mono [OF _ child_heapAfter [of h p]]
  by (fastforce simp: circular_def reach_def)

lemma circularProps_nonCallables:
  assumes "\<not> circularProps h p"
  shows "\<not> circularProps (heapAfter h p') (omit p ns)"
proof
  assume "circularProps (heapAfter h p') (omit p ns)"
  then obtain k where "k \<in> set (keys (omit p ns))" "circular (heapAfter h p') (getProp (omit p ns) k)"
    by (auto simp: circularProps_def)
  then have "k \<in> set (keys p)" "circular h (getProp p k)"
    by (auto simp: keys_omit getProp_omit dest: circular_heapAfter)
  with assms show False
    by (auto simp: circularProps_def)
qed

lemma acyclic_not_circular: "acyclic (child h) \<Longrightarrow> \<not> circularProps h ps"
  by (auto simp: circularProps_def circular_def acyclic_def)

section \<open>The render gate: result\<close>

lemma shouldUpdate_throwing: "deletionThrows h p \<Longrightarrow> shouldUpdate h p n = (Inl TypeError, h)"
  using deleteMapTypeId_throws [of h p TypeError] by (simp add: shouldUpdate_def)

text \<open>
  Without circular references in the previous props, and when the deletion step does not
  throw: the gate returns false on partitions that are not structurally equal, and goes
  through the callable names of the previous props otherwise.
\<close>

lemma shouldUpdate_compared:
  assumes del: "\<not> deletionThrows h p" and nc: "\<not> circularProps h p"
  shows "fst (shouldUpdate h p n) =
    (if structurallyEqual (heapAfter h p)
          (nonCallables (heapAfter h p) p) (nonCallables (heapAfter h p) n)
     then every (sameText (heapAfter h p) p n) (functionsOf (heapAfter h p) p)
     else Inr False)"
proof -
  have "isEqual (heapAfter h p) (nonCallables (heapAfter h p) p) (nonCallables (heapAfter h p) n)
      = Some (structurallyEqual (heapAfter h p)
          (nonCallables (heapAfter h p) p) (nonCallables (heapAfter h p) n))"
    unfolding nonCallables_def using nc
    by (intro isEqual_structural circularProps_nonCallables)
  then show ?thesis
    using deletion_heapAfter [OF del]
    by (simp add: shouldUpdate_def Let_def nonCallables_def)
qed

text \<open>
  When the non-callable partitions have the same keys, a callable name of the previous
  props is either a callable name of the next props or no property of them at all.
\<close>

lemma omitted_function_keys:
  assumes eq: "set (keys (nonCallables h p)) = set (keys (nonCallables h n))"
    and fn: "fn \<in> set (functionsOf h p)"
  shows "fn \<in> set (functionsOf h n) \<or> fn \<notin> set (keys n)"
proof -
  have "fn \<notin> set (keys (nonCallables h p))"
    using fn by (simp add: nonCallables_def keys_omit)
  then have "fn \<notin> set (keys (nonCallables h n))"
    using eq by simp
  then show ?thesis
    by (auto simp: nonCallables_def keys_omit)
qed

lemma omitted_function:
  assumes "structurallyEqual h (nonCallables h p) (nonCallables h n)"
    and "fn \<in> set (functionsOf h p)"
  shows "fn \<in> set (functionsOf h n) \<or> fn \<notin> set (keys n)"
  using assms by (intro omitted_function_keys) (simp_all add: structurallyEqual_def)

text \<open>
  So the gate converts nothing but functions and \<^verbatim>\<open>undefined\<close> to a string, and the
  conversions left out of \<open>toString\<close> are never asked for.
\<close>

lemma shouldUpdate_supported: "fst (shouldUpdate h p n) \<noteq> Inl Unsupported"
proof (cases "deleteMapTypeId h p")
  case (Inl e)
  then have "e = TypeError"
    by (simp add: deleteMapTypeId_throws)
  with Inl show ?thesis
    by (simp add: shouldUpdate_def)
next
  case (Inr h')
  let ?A = "isEqual h' (nonCallables h' p) (nonCallables h' n)"
  have "every (sameText h' p n) (functionsOf h' p) \<noteq> Inl Unsupported" if A: "?A = Some True"
  proof -
    have "sameText h' p n fn \<noteq> Inl Unsupported" if "fn \<in> set (functionsOf h' p)" for fn
    proof -
      from that have "isFunction h' (getProp p fn)"
        by (simp add: in_functionsOf)
      then obtain s where s: "toString h' (getProp p fn) = Inr s"
        using toString_function by blast
      from omitted_function_keys [OF isEqual_keys [OF A] that] show ?thesis
      proof
        assume "fn \<in> set (functionsOf h' n)"
        then have "isFunction h' (getProp n fn)"
          by (simp add: in_functionsOf)
        then obtain t where "toString h' (getProp n fn) = Inr t"
          using toString_function by blast
        with s show ?thesis
          by (simp add: sameText_def)
      next
        assume "fn \<notin> set (keys n)"
        then have "getProp n fn = VUndefined"
          by (rule getProp_absent)
        with s show ?thesis
          by (simp add: sameText_def toString_def)
      qed
    qed
    then show ?thesis
      using every_error by blast
  qed
  with Inr show ?thesis
    by (auto simp: shouldUpdate_def Let_def nonCallables_def split: option.splits bool.splits)
qed

lemma every_sameText:
  "every (sameText h p n) (functionsOf h p) =
    (case firstMismatch h p n of None \<Rightarrow> Inr True | Some fn \<Rightarrow> sameText h p n fn)"
proof -
  have "find (\<lambda>fn. sameText h p n fn \<noteq> Inr True) (functionsOf h p) = firstMismatch h p n"
    unfolding firstMismatch_def
    by (rule find_cong) (auto simp: in_functionsOf sameText_True)
  then show ?thesis
    by (simp add: every_find)
qed

lemma firstMismatch_None: "(firstMismatch h p n = None) = callablesAgree h p n"
  by (auto simp: firstMismatch_def callablesAgree_def find_None_iff list_all_iff)

lemma firstMismatch_Some:
  assumes "firstMismatch h p n = Some fn"
  shows "fn \<in> set (functionsOf h p)" "sameText h p n fn \<noteq> Inr True"
proof -
  from assms show fn: "fn \<in> set (functionsOf h p)"
    by (auto simp: firstMismatch_def find_Some_iff)
  from assms have "toString h (getProp p fn) \<noteq> toString h (getProp n fn)"
    by (auto simp: firstMismatch_def find_Some_iff)
  with fn show "sameText h p n fn \<noteq> Inr True"
    by (simp add: in_functionsOf sameText_True)
qed

subsection \<open>The example renders\<close>

lemma renderGateSpec_refl: "renderGateSpec h P P"
  by (simp add: renderGateSpec_def structurallyEqual_def callablesAgree_def list_all_iff
      deepEq.same)

lemma exHeap_not_circular: "\<not> circularProps exHeap ps"
proof -
  have "acyclic (child exHeap)"
    by (rule acyclicI_order [where f = "\<lambda>a. if a \<in> {5, 6, 7, 8} then 0 else (1::nat)"])
      (auto simp: child_def valuesOf_def keys_def getProp_def split: if_splits)
  then show ?thesis
    by (rule acyclic_not_circular)
qed

text \<open>The equal options of the examples.\<close>

lemma taggedHeap_equal: "deepEq taggedHeap (VRef 1) (VRef 3)"
  by (rule deepEq.objects [where ps = "[(''zoom'', VNum 5), (''mapTypeId'', VStr ''roadmap'')]"
        and qs = "[(''zoom'', VNum 5), (''mapTypeId'', VStr ''roadmap'')]"])
    (auto simp: keys_def getProp_def intro: deepEq.same)

lemma routeHeap_equal: "deepEq routeHeap (VRef 11) (VRef 13)"
proof -
  have "deepEq routeHeap (VRef 13) (VRef 14)"
    by (rule deepEq.objects [where ps = "[(''next'', VRef 14)]" and qs = "[(''next'', VRef 14)]"])
      (auto simp: keys_def getProp_def intro: deepEq.same)
  then have "deepEq routeHeap (VRef 12) (VRef 14)"
    by (intro deepEq.objects [where ps = "[(''next'', VRef 13)]" and qs = "[(''next'', VRef 14)]"])
      (auto simp: keys_def getProp_def)
  then show ?thesis
    by (intro deepEq.objects [where ps = "[(''next'', VRef 12)]" and qs = "[(''next'', VRef 14)]"])
      (auto simp: keys_def getProp_def)
qed

subsection \<open>The claim\<close>

text \<open>
  Claim C1, as amended. Let the deletion step not throw, and let the previous props hold
  no circular reference. Then the gate returns true exactly when the specification's
  conjunction holds once \<open>mapTypeId\<close> is deleted from the previous options: the
  non-callable partitions are structurally equal, and every callable property named in
  the previous props has the same source text in the next props. And it returns false
  whenever the partitions are not structurally equal, and whenever the first callable
  name of the previous props under which the texts are not the same names a property of
  the next props. The case left is the one of claim C4.
\<close>

theorem shouldUpdate_result:
  assumes "\<not> deletionThrows h prev" and "\<not> circularProps h prev"
  shows "(fst (shouldUpdate h prev next) = Inr True) = renderGateSpec (heapAfter h prev) prev next
    \<and> (\<not> structurallyEqual (heapAfter h prev)
           (nonCallables (heapAfter h prev) prev) (nonCallables (heapAfter h prev) next)
         \<or> textsDiffer (heapAfter h prev) prev next
       \<longrightarrow> fst (shouldUpdate h prev next) = Inr False)"
proof (cases "structurallyEqual (heapAfter h prev)
    (nonCallables (heapAfter h prev) prev) (nonCallables (heapAfter h prev) next)")
  case False
  then show ?thesis
    by (simp add: shouldUpdate_compared [OF assms] renderGateSpec_def)
next
  case True
  let ?h = "heapAfter h prev"
  have res: "fst (shouldUpdate h prev next) =
      (case firstMismatch ?h prev next of None \<Rightarrow> Inr True | Some fn \<Rightarrow> sameText ?h prev next fn)"
    using True by (simp add: shouldUpdate_compared [OF assms] every_sameText)
  show ?thesis
  proof (cases "firstMismatch ?h prev next")
    case None
    with res True show ?thesis
      using firstMismatch_None [of ?h prev "next"]
      by (simp add: renderGateSpec_def textsDiffer_def)
  next
    case (Some fn)
    then have nt: "\<not> callablesAgree ?h prev next"
      using firstMismatch_None [of ?h prev "next"] by simp
    have fn: "fn \<in> set (functionsOf ?h prev)" and ne: "sameText ?h prev next fn \<noteq> Inr True"
      using firstMismatch_Some [OF Some] by simp_all
    have "sameText ?h prev next fn = Inr False" if "fn \<in> set (keys next)"
    proof -
      from omitted_function [OF True fn] that have "fn \<in> set (functionsOf ?h next)"
        by simp
      with fn have "\<exists>b. sameText ?h prev next fn = Inr b"
        by (simp add: in_functionsOf sameText_functions)
      with ne show ?thesis
        by auto
    qed
    with res Some nt ne True show ?thesis
      by (simp add: renderGateSpec_def textsDiffer_def)
  qed
qed

theorem shouldUpdate_result_witness:
  "\<not> deletionThrows exHeap exPrev
   \<and> \<not> circularProps exHeap exPrev
   \<and> fst (shouldUpdate exHeap exPrev exNext) = Inr True
   \<and> renderGateSpec (heapAfter exHeap exPrev) exPrev exNext
   \<and> \<not> renderGateSpec (heapAfter exHeap exPrev) exPrev (setProp exNext ''className'' (VStr ''wide''))
   \<and> textsDiffer (heapAfter exHeap exPrev) exPrev (setProp exNext ''onMount'' (VRef 9))
   \<and> fst (shouldUpdate exHeap exPrev (setProp exNext ''onMount'' (VRef 9))) = Inr False"
proof -
  have del: "\<not> deletionThrows exHeap exPrev"
    by code_simp
  have nc: "\<not> circularProps exHeap exPrev"
    by (rule exHeap_not_circular)
  have true: "fst (shouldUpdate exHeap exPrev exNext) = Inr True"
    by code_simp
  have "(fst (shouldUpdate exHeap exPrev exNext) = Inr True)
      = renderGateSpec (heapAfter exHeap exPrev) exPrev exNext"
    by (rule shouldUpdate_result [OF del nc, THEN conjunct1])
  with true have spec: "renderGateSpec (heapAfter exHeap exPrev) exPrev exNext"
    by simp
  have "fst (shouldUpdate exHeap exPrev (setProp exNext ''className'' (VStr ''wide'')))
      = Inr False"
    by code_simp
  then have "fst (shouldUpdate exHeap exPrev (setProp exNext ''className'' (VStr ''wide'')))
      \<noteq> Inr True"
    by simp
  moreover have "(fst (shouldUpdate exHeap exPrev (setProp exNext ''className'' (VStr ''wide'')))
        = Inr True)
      = renderGateSpec (heapAfter exHeap exPrev) exPrev (setProp exNext ''className'' (VStr ''wide''))"
    by (rule shouldUpdate_result [OF del nc, THEN conjunct1])
  ultimately have spec':
    "\<not> renderGateSpec (heapAfter exHeap exPrev) exPrev (setProp exNext ''className'' (VStr ''wide''))"
    by simp
  have diff: "textsDiffer (heapAfter exHeap exPrev) exPrev (setProp exNext ''onMount'' (VRef 9))"
    by code_simp
  have false: "fst (shouldUpdate exHeap exPrev (setProp exNext ''onMount'' (VRef 9))) = Inr False"
    by (rule shouldUpdate_result [OF del nc, THEN conjunct2, rule_format]) (rule disjI2, rule diff)
  show ?thesis
    by (intro conjI del nc true spec spec' diff false)
qed

text \<open>
  The claim as the specification words it fails in five ways. The first four times the
  specification's conjunction holds, and the gate does not return true: with no
  \<open>options\<close> in the previous props it throws; with frozen options that hold \<open>mapTypeId\<close> it
  throws; with two equal options objects that both hold \<open>mapTypeId\<close> it returns false,
  after deleting the field from the first; with the two equal routes that end in the
  roundabout it returns false. The fifth time the conjunction fails and the gate does not
  return false: with an \<open>onMount\<close> function in the previous props only it throws.
\<close>

theorem shouldUpdate_throws:
  "renderGateSpec closures [(''onMount'', VRef 2)] [(''onMount'', VRef 4)]
   \<and> fst (shouldUpdate closures [(''onMount'', VRef 2)] [(''onMount'', VRef 4)]) = Inl TypeError
   \<and> renderGateSpec frozenHeap
       [(''options'', VRef 1), (''onMount'', VRef 2)] [(''options'', VRef 1), (''onMount'', VRef 4)]
   \<and> fst (shouldUpdate frozenHeap
       [(''options'', VRef 1), (''onMount'', VRef 2)] [(''options'', VRef 1), (''onMount'', VRef 4)])
       = Inl TypeError
   \<and> renderGateSpec taggedHeap
       [(''options'', VRef 1), (''onMount'', VRef 2)] [(''options'', VRef 3), (''onMount'', VRef 4)]
   \<and> fst (shouldUpdate taggedHeap
       [(''options'', VRef 1), (''onMount'', VRef 2)] [(''options'', VRef 3), (''onMount'', VRef 4)])
       = Inr False
   \<and> renderGateSpec routeHeap
       [(''options'', VRef 1), (''route'', VRef 11), (''onMount'', VRef 2)]
       [(''options'', VRef 1), (''route'', VRef 13), (''onMount'', VRef 4)]
   \<and> fst (shouldUpdate routeHeap
       [(''options'', VRef 1), (''route'', VRef 11), (''onMount'', VRef 2)]
       [(''options'', VRef 1), (''route'', VRef 13), (''onMount'', VRef 4)])
       = Inr False
   \<and> \<not> renderGateSpec exHeap
         [(''options'', VRef 3), (''onMount'', VRef 4)] [(''options'', VRef 3)]
   \<and> fst (shouldUpdate exHeap [(''options'', VRef 3), (''onMount'', VRef 4)] [(''options'', VRef 3)])
       = Inl TypeError"
proof -
  have none: "renderGateSpec closures [(''onMount'', VRef 2)] [(''onMount'', VRef 4)]"
    by (simp add: renderGateSpec_def structurallyEqual_def callablesAgree_def nonCallables_def
        functionsOf_def isFunction_def omit_def keys_def getProp_def toString_def)
  have frozen: "renderGateSpec frozenHeap
       [(''options'', VRef 1), (''onMount'', VRef 2)] [(''options'', VRef 1), (''onMount'', VRef 4)]"
    by (simp add: renderGateSpec_def structurallyEqual_def callablesAgree_def nonCallables_def
        functionsOf_def isFunction_def omit_def keys_def getProp_def toString_def deepEq.same)
  have tagged: "renderGateSpec taggedHeap
       [(''options'', VRef 1), (''onMount'', VRef 2)] [(''options'', VRef 3), (''onMount'', VRef 4)]"
    using taggedHeap_equal
    by (simp add: renderGateSpec_def structurallyEqual_def callablesAgree_def nonCallables_def
        functionsOf_def isFunction_def omit_def keys_def getProp_def toString_def)
  have route: "renderGateSpec routeHeap
       [(''options'', VRef 1), (''route'', VRef 11), (''onMount'', VRef 2)]
       [(''options'', VRef 1), (''route'', VRef 13), (''onMount'', VRef 4)]"
    using routeHeap_equal
    by (simp add: renderGateSpec_def structurallyEqual_def callablesAgree_def nonCallables_def
        functionsOf_def isFunction_def omit_def keys_def getProp_def toString_def deepEq.same)
  have "\<not> callablesAgree exHeap [(''options'', VRef 3), (''onMount'', VRef 4)] [(''options'', VRef 3)]"
    by code_simp
  then have slip: "\<not> renderGateSpec exHeap
         [(''options'', VRef 3), (''onMount'', VRef 4)] [(''options'', VRef 3)]"
    by (simp add: renderGateSpec_def)
  have 1: "fst (shouldUpdate closures [(''onMount'', VRef 2)] [(''onMount'', VRef 4)])
      = Inl TypeError"
    by code_simp
  have 2: "fst (shouldUpdate frozenHeap
       [(''options'', VRef 1), (''onMount'', VRef 2)] [(''options'', VRef 1), (''onMount'', VRef 4)])
       = Inl TypeError"
    by code_simp
  have 3: "fst (shouldUpdate taggedHeap
       [(''options'', VRef 1), (''onMount'', VRef 2)] [(''options'', VRef 3), (''onMount'', VRef 4)])
       = Inr False"
    by code_simp
  have 4: "fst (shouldUpdate routeHeap
       [(''options'', VRef 1), (''route'', VRef 11), (''onMount'', VRef 2)]
       [(''options'', VRef 1), (''route'', VRef 13), (''onMount'', VRef 4)])
       = Inr False"
    by code_simp
  have 5: "fst (shouldUpdate exHeap [(''options'', VRef 3), (''onMount'', VRef 4)] [(''options'', VRef 3)])
       = Inl TypeError"
    by code_simp
  show ?thesis
    by (intro conjI none frozen tagged route slip 1 2 3 4 5)
qed

section \<open>The render gate: callable properties\<close>

text \<open>
  The options of the two example renders are equal once the gate has deleted \<open>mapTypeId\<close>
  from the first.
\<close>

lemma exHeap_options_equal: "deepEq (heapAfter exHeap exPrev) (VRef 1) (VRef 3)"
proof -
  have h: "heapAfter exHeap exPrev =
    [(1, JObject [(''center'', VRef 5), (''zoom'', VNum 5)] ordinary),
     (2, JFunction ''map => addMarkers(links)(map)'' [(''links'', VRef 6)]),
     (3, JObject [(''center'', VRef 7), (''zoom'', VNum 5)] ordinary),
     (4, JFunction ''map => addMarkers(links)(map)'' [(''links'', VRef 8)]),
     (5, JObject [(''lat'', VNum 48), (''lng'', VNum 8)] ordinary),
     (6, JArray []),
     (7, JObject [(''lng'', VNum 8), (''lat'', VNum 48)] ordinary),
     (8, JArray [VStr ''https://wikipedia.org/wiki/Area_51'']),
     (9, JFunction ''m => addMarkers(links)(m)'' [(''links'', VRef 8)]),
     (10, JObject [(''zoom'', VNum 5), (''center'', VRef 5)] ordinary)]"
    by code_simp
  have "deepEq (heapAfter exHeap exPrev) (VRef 5) (VRef 7)"
    unfolding h
    by (rule deepEq.objects [where ps = "[(''lat'', VNum 48), (''lng'', VNum 8)]"
          and qs = "[(''lng'', VNum 8), (''lat'', VNum 48)]"])
      (auto simp: keys_def getProp_def intro: deepEq.same)
  then show ?thesis
    unfolding h
    by (intro deepEq.objects [where ps = "[(''center'', VRef 5), (''zoom'', VNum 5)]"
          and qs = "[(''center'', VRef 7), (''zoom'', VNum 5)]"])
      (auto simp: keys_def getProp_def intro: deepEq.same)
qed

text \<open>
  Claim C2, as amended. Let the two props hold a function each under the name \<open>k\<close>, and
  let all their other properties be equal: without the property \<open>k\<close> the two props are
  structurally equal once \<open>mapTypeId\<close> is deleted from the previous options. Let the
  deletion step not throw and the previous props hold no circular reference. Then the
  gate returns true when the two source texts are identical and false when they differ.
  Neither the addresses of the two functions nor the values they captured (\<open>e1\<close>, \<open>e2\<close>)
  play a part: two closures of one function expression pass, two functions of equal
  behaviour and different text do not. None of the three provisos can go, see
  \<open>callable_not_compared\<close>.
\<close>

theorem callable_compared_by_text:
  assumes del: "\<not> deletionThrows h prev"
    and nc: "\<not> circularProps h prev"
    and f: "getProp prev k = VRef a" "map_of h a = Some (JFunction s1 e1)"
    and g: "getProp next k = VRef b" "map_of h b = Some (JFunction s2 e2)"
    and others: "structurallyEqual (heapAfter h prev) (deleteProp prev k) (deleteProp next k)"
  shows "fst (shouldUpdate h prev next) = Inr (s1 = s2)"
proof -
  let ?h = "heapAfter h prev"
  have "isFunction h (VRef a)" and "isFunction h (VRef b)"
    using f g by (simp_all add: isFunction_def)
  then have fa: "isFunction ?h (getProp prev k)" and fb: "isFunction ?h (getProp next k)"
    using f g by (simp_all add: isFunction_heapAfter)
  have "toString h (VRef a) = Inr s1" and "toString h (VRef b) = Inr s2"
    using f g by (simp_all add: toString_def)
  then have ta: "toString ?h (getProp prev k) = Inr s1"
    and tb: "toString ?h (getProp next k) = Inr s2"
    using f g by (simp_all add: toString_heapAfter)
  have kp: "k \<in> set (keys prev)" and kn: "k \<in> set (keys next)"
    using f(1) g(1) by (auto intro: getProp_present)
  from others have "set (keys prev) - {k} = set (keys next) - {k}"
    by (simp add: structurallyEqual_def keys_deleteProp)
  with kp kn have keys: "set (keys prev) = set (keys next)"
    by auto
  have eq: "deepEq ?h (getProp prev k') (getProp next k')"
    if "k' \<in> set (keys prev)" "k' \<noteq> k" for k'
    using others that
    by (auto simp: structurallyEqual_def keys_deleteProp getProp_deleteProp list_all_iff)
  have isf: "isFunction ?h (getProp prev k') = isFunction ?h (getProp next k')"
    if "k' \<in> set (keys prev)" for k'
    using that fa fb eq [of k'] by (cases "k' = k") (auto dest: deepEq_isFunction)
  have funs: "set (functionsOf ?h prev) = set (functionsOf ?h next)"
    using keys isf by (auto simp: in_functionsOf)
  have kf: "k \<in> set (functionsOf ?h prev)"
    using kp fa by (simp add: in_functionsOf)
  have "deepEq ?h (getProp (nonCallables ?h prev) k') (getProp (nonCallables ?h next) k')"
    if "k' \<in> set (keys (nonCallables ?h prev))" for k'
  proof -
    from that have k': "k' \<in> set (keys prev)" "k' \<notin> set (functionsOf ?h prev)"
      by (simp_all add: nonCallables_def keys_omit)
    with kf have "k' \<noteq> k"
      by auto
    with k' funs show ?thesis
      by (simp add: nonCallables_def getProp_omit eq)
  qed
  moreover have "set (keys (nonCallables ?h prev)) = set (keys (nonCallables ?h next))"
    using keys funs by (simp add: nonCallables_def keys_omit)
  ultimately have
    "structurallyEqual ?h (nonCallables ?h prev) (nonCallables ?h next)"
    by (simp add: structurallyEqual_def list_all_iff)
  then have res: "fst (shouldUpdate h prev next)
      = every (sameText ?h prev next) (functionsOf ?h prev)"
    by (simp add: shouldUpdate_compared [OF del nc])
  have "sameText ?h prev next fn = Inr (fn = k \<longrightarrow> s1 = s2)"
    if "fn \<in> set (functionsOf ?h prev)" for fn
  proof (cases "fn = k")
    case True
    then show ?thesis
      using ta tb by (simp add: sameText_def)
  next
    case False
    from that have fn: "fn \<in> set (keys prev)" "isFunction ?h (getProp prev fn)"
      by (simp_all add: in_functionsOf)
    with False have "getProp next fn = getProp prev fn"
      using eq [of fn] by (auto dest: deepEq_function)
    with fn False show ?thesis
      by (simp add: sameText_functions)
  qed
  then have "every (sameText ?h prev next) (functionsOf ?h prev) =
      Inr (list_all (\<lambda>fn. fn = k \<longrightarrow> s1 = s2) (functionsOf ?h prev))"
    by (rule every_all_Inr)
  moreover have "list_all (\<lambda>fn. fn = k \<longrightarrow> s1 = s2) (functionsOf ?h prev) = (s1 = s2)"
    using kf by (auto simp: list_all_iff)
  ultimately show ?thesis
    using res by simp
qed

text \<open>
  On the example: closure 2 against closure 4 (one text, different captured links) passes
  the gate; closure 2 against closure 9 (another text for the same behaviour) does not.
\<close>

theorem callable_compared_by_text_witness:
  "\<not> deletionThrows exHeap exPrev
   \<and> \<not> circularProps exHeap exPrev
   \<and> structurallyEqual (heapAfter exHeap exPrev)
       (deleteProp exPrev ''onMount'') (deleteProp exNext ''onMount'')
   \<and> fst (shouldUpdate exHeap exPrev exNext) = Inr True
   \<and> structurallyEqual (heapAfter exHeap exPrev)
       (deleteProp exPrev ''onMount'') (deleteProp (setProp exNext ''onMount'' (VRef 9)) ''onMount'')
   \<and> fst (shouldUpdate exHeap exPrev (setProp exNext ''onMount'' (VRef 9))) = Inr False"
proof -
  have del: "\<not> deletionThrows exHeap exPrev"
    by code_simp
  have nc: "\<not> circularProps exHeap exPrev"
    by (rule exHeap_not_circular)
  have others: "structurallyEqual (heapAfter exHeap exPrev)
      (deleteProp exPrev ''onMount'') (deleteProp exNext ''onMount'')"
    using exHeap_options_equal
    by (simp add: structurallyEqual_def deleteProp_def keys_def getProp_def deepEq.same)
  have others': "structurallyEqual (heapAfter exHeap exPrev)
      (deleteProp exPrev ''onMount'') (deleteProp (setProp exNext ''onMount'' (VRef 9)) ''onMount'')"
    using others by (simp add: deleteProp_setProp)
  have f2: "getProp exPrev ''onMount'' = VRef 2"
    "map_of exHeap 2 = Some (JFunction ''map => addMarkers(links)(map)'' [(''links'', VRef 6)])"
    by (simp_all add: getProp_def)
  have f4: "getProp exNext ''onMount'' = VRef 4"
    "map_of exHeap 4 = Some (JFunction ''map => addMarkers(links)(map)'' [(''links'', VRef 8)])"
    by (simp_all add: getProp_def)
  have f9: "getProp (setProp exNext ''onMount'' (VRef 9)) ''onMount'' = VRef 9"
    "map_of exHeap 9 = Some (JFunction ''m => addMarkers(links)(m)'' [(''links'', VRef 8)])"
    by (simp_all add: getProp_setProp)
  have "fst (shouldUpdate exHeap exPrev exNext) = Inr True"
    using callable_compared_by_text [OF del nc f2 f4 others] by simp
  moreover
  have "fst (shouldUpdate exHeap exPrev (setProp exNext ''onMount'' (VRef 9))) = Inr False"
    using callable_compared_by_text [OF del nc f2 f9 others'] by simp
  ultimately show ?thesis
    using del nc others others' by blast
qed

text \<open>
  The claim as the specification words it fails where a proviso does. Each time the two
  props hold closures 2 and 4, of one text, and are equal in all other properties. With
  no \<open>options\<close> the gate throws; with frozen options that hold \<open>mapTypeId\<close> it throws; with
  two equal options objects that both hold \<open>mapTypeId\<close> it returns false, after deleting
  the field from the first; and with the two equal routes that end in the roundabout it
  returns false.
\<close>

theorem callable_not_compared:
  "structurallyEqual closures
       (deleteProp [(''onMount'', VRef 2)] ''onMount'') (deleteProp [(''onMount'', VRef 4)] ''onMount'')
   \<and> fst (shouldUpdate closures [(''onMount'', VRef 2)] [(''onMount'', VRef 4)]) = Inl TypeError
   \<and> structurallyEqual frozenHeap
       (deleteProp [(''options'', VRef 1), (''onMount'', VRef 2)] ''onMount'')
       (deleteProp [(''options'', VRef 1), (''onMount'', VRef 4)] ''onMount'')
   \<and> fst (shouldUpdate frozenHeap
       [(''options'', VRef 1), (''onMount'', VRef 2)] [(''options'', VRef 1), (''onMount'', VRef 4)])
       = Inl TypeError
   \<and> structurallyEqual taggedHeap
       (deleteProp [(''options'', VRef 1), (''onMount'', VRef 2)] ''onMount'')
       (deleteProp [(''options'', VRef 3), (''onMount'', VRef 4)] ''onMount'')
   \<and> fst (shouldUpdate taggedHeap
       [(''options'', VRef 1), (''onMount'', VRef 2)] [(''options'', VRef 3), (''onMount'', VRef 4)])
       = Inr False
   \<and> structurallyEqual routeHeap
       (deleteProp [(''options'', VRef 1), (''route'', VRef 11), (''onMount'', VRef 2)] ''onMount'')
       (deleteProp [(''options'', VRef 1), (''route'', VRef 13), (''onMount'', VRef 4)] ''onMount'')
   \<and> fst (shouldUpdate routeHeap
       [(''options'', VRef 1), (''route'', VRef 11), (''onMount'', VRef 2)]
       [(''options'', VRef 1), (''route'', VRef 13), (''onMount'', VRef 4)])
       = Inr False"
proof -
  have none: "structurallyEqual closures
       (deleteProp [(''onMount'', VRef 2)] ''onMount'') (deleteProp [(''onMount'', VRef 4)] ''onMount'')"
    by (simp add: structurallyEqual_def deleteProp_def keys_def)
  have frozen: "structurallyEqual frozenHeap
       (deleteProp [(''options'', VRef 1), (''onMount'', VRef 2)] ''onMount'')
       (deleteProp [(''options'', VRef 1), (''onMount'', VRef 4)] ''onMount'')"
    by (simp add: structurallyEqual_def deleteProp_def keys_def getProp_def deepEq.same)
  have tagged: "structurallyEqual taggedHeap
       (deleteProp [(''options'', VRef 1), (''onMount'', VRef 2)] ''onMount'')
       (deleteProp [(''options'', VRef 3), (''onMount'', VRef 4)] ''onMount'')"
    using taggedHeap_equal
    by (simp add: structurallyEqual_def deleteProp_def keys_def getProp_def)
  have route: "structurallyEqual routeHeap
       (deleteProp [(''options'', VRef 1), (''route'', VRef 11), (''onMount'', VRef 2)] ''onMount'')
       (deleteProp [(''options'', VRef 1), (''route'', VRef 13), (''onMount'', VRef 4)] ''onMount'')"
    using routeHeap_equal
    by (simp add: structurallyEqual_def deleteProp_def keys_def getProp_def deepEq.same)
  have 1: "fst (shouldUpdate closures [(''onMount'', VRef 2)] [(''onMount'', VRef 4)])
      = Inl TypeError"
    by code_simp
  have 2: "fst (shouldUpdate frozenHeap
       [(''options'', VRef 1), (''onMount'', VRef 2)] [(''options'', VRef 1), (''onMount'', VRef 4)])
       = Inl TypeError"
    by code_simp
  have 3: "fst (shouldUpdate taggedHeap
       [(''options'', VRef 1), (''onMount'', VRef 2)] [(''options'', VRef 3), (''onMount'', VRef 4)])
       = Inr False"
    by code_simp
  have 4: "fst (shouldUpdate routeHeap
       [(''options'', VRef 1), (''route'', VRef 11), (''onMount'', VRef 2)]
       [(''options'', VRef 1), (''route'', VRef 13), (''onMount'', VRef 4)])
       = Inr False"
    by code_simp
  show ?thesis
    by (intro conjI none frozen tagged route 1 2 3 4)
qed

section \<open>The render gate: reflexivity\<close>

text \<open>
  Claim C3, as amended. For every PropertySet \<open>P\<close> on which the deletion step does not
  throw (its \<open>options\<close> is neither \<^verbatim>\<open>undefined\<close> nor \<^verbatim>\<open>null\<close>, and does not hold \<open>mapTypeId\<close> as
  an own property that is not configurable), callable properties or not, circular
  references or not, the gate returns true on \<open>P\<close> and \<open>P\<close>, and leaves the heap of the
  deletion step. For the other PropertySets it throws, see \<open>shouldUpdate_not_reflexive\<close>.
\<close>

theorem shouldUpdate_reflexive:
  assumes "\<not> deletionThrows h P"
  shows "shouldUpdate h P P = (Inr True, heapAfter h P)"
proof -
  let ?h = "heapAfter h P"
  have "sameText ?h P P fn = Inr True" if "fn \<in> set (functionsOf ?h P)" for fn
    using that by (simp add: in_functionsOf sameText_functions)
  then have "every (sameText ?h P P) (functionsOf ?h P) = Inr True"
    by (simp add: every_True)
  then show ?thesis
    using deletion_heapAfter [OF assms] by (simp add: shouldUpdate_def isEqual_refl)
qed

theorem shouldUpdate_reflexive_witness:
  "\<not> deletionThrows exHeap exPrev
   \<and> shouldUpdate exHeap exPrev exPrev = (Inr True, heapAfter exHeap exPrev)"
proof -
  have del: "\<not> deletionThrows exHeap exPrev"
    by code_simp
  from shouldUpdate_reflexive [OF del] del show ?thesis
    by blast
qed

text \<open>
  A PropertySet without \<open>options\<close>, one whose \<open>options\<close> is \<^verbatim>\<open>null\<close>, and one whose \<open>options\<close>
  are frozen and hold \<open>mapTypeId\<close>: the gate throws on each.
\<close>

theorem shouldUpdate_not_reflexive:
  "fst (shouldUpdate exHeap [(''onMount'', VRef 2), (''className'', VStr ''map'')]
          [(''onMount'', VRef 2), (''className'', VStr ''map'')]) = Inl TypeError
   \<and> fst (shouldUpdate exHeap [(''options'', VNull)] [(''options'', VNull)]) = Inl TypeError
   \<and> fst (shouldUpdate frozenHeap [(''options'', VRef 1), (''onMount'', VRef 2)]
          [(''options'', VRef 1), (''onMount'', VRef 2)]) = Inl TypeError"
  by code_simp

section \<open>The render gate: differing sets of callable names\<close>

lemma keys_setProp_new: "k \<notin> set (keys ps) \<Longrightarrow> keys (setProp ps k v) = keys ps @ [k]"
proof -
  have "remdups (xs @ [k]) = remdups xs @ [k]" if "k \<notin> set xs" for xs :: "string list"
    using that by (induction xs) auto
  then show "k \<notin> set (keys ps) \<Longrightarrow> keys (setProp ps k v) = keys ps @ [k]"
    by (simp add: keys_def setProp_def update_keys)
qed

text \<open>
  The loop runs over the callable names of the previous props only. A function that the
  next props have under a new name is never looked at: the gate answers as without it.
\<close>

lemma callable_only_in_next:
  assumes kp: "k \<notin> set (keys prev)" and kn: "k \<notin> set (keys next)"
    and fb: "isFunction h (VRef b)"
  shows "shouldUpdate h prev (setProp next k (VRef b)) = shouldUpdate h prev next"
proof (cases "deleteMapTypeId h prev")
  case (Inl e)
  then show ?thesis
    by (simp add: shouldUpdate_def)
next
  case (Inr h')
  let ?next = "setProp next k (VRef b)"
  have h': "h' = heapAfter h prev"
    using Inr by (simp add: heapAfter_def)
  have fb': "isFunction h' (VRef b)"
    using fb by (simp add: h' isFunction_heapAfter)
  have "filter (\<lambda>k'. isFunction h' (getProp ?next k')) (keys next)
      = filter (\<lambda>k'. isFunction h' (getProp next k')) (keys next)"
    using kn by (intro filter_cong) (auto simp: getProp_setProp)
  then have funs: "functionsOf h' ?next = functionsOf h' next @ [k]"
    using fb' by (simp add: functionsOf_def keys_setProp_new [OF kn] getProp_setProp)
  have fresh: "k \<notin> fst ` set next"
    using kn by (simp add: set_keys)
  then have app: "setProp next k (VRef b) = next @ [(k, VRef b)]"
    unfolding setProp_def by (induction "next") auto
  have "omit ?next (functionsOf h' ?next) = omit ?next (functionsOf h' next @ [k])"
    by (simp only: funs)
  also have "\<dots> = omit (next @ [(k, VRef b)]) (functionsOf h' next @ [k])"
    by (simp only: app)
  also have "\<dots> = omit next (functionsOf h' next)"
    using fresh by (force simp: omit_def intro!: filter_cong)
  finally have om: "omit ?next (functionsOf h' ?next) = omit next (functionsOf h' next)" .
  have "sameText h' prev ?next fn = sameText h' prev next fn"
    if "fn \<in> set (functionsOf h' prev)" for fn
  proof -
    from that kp have "fn \<noteq> k"
      by (auto simp: in_functionsOf)
    then have "getProp ?next fn = getProp next fn"
      by (simp add: getProp_setProp)
    then show ?thesis
      by (simp only: sameText_def)
  qed
  then have "every (sameText h' prev ?next) (functionsOf h' prev)
      = every (sameText h' prev next) (functionsOf h' prev)"
    by (rule every_cong_set)
  then show ?thesis
    using Inr by (simp add: shouldUpdate_def Let_def om split: option.splits bool.splits)
qed

text \<open>
  A function that only the previous props have is looked up in the next props, where it
  is \<^verbatim>\<open>undefined\<close>, and \<^verbatim>\<open>undefined.toString()\<close> throws: when that function is all the next
  props lack, the gate ends in a \<^verbatim>\<open>TypeError\<close>.
\<close>

lemma callable_only_in_previous:
  assumes del: "\<not> deletionThrows h prev"
    and fk: "k \<in> set (functionsOf h prev)"
  shows "fst (shouldUpdate h prev (deleteProp prev k)) = Inl TypeError"
proof -
  let ?next = "deleteProp prev k"
  let ?h = "heapAfter h prev"
  have fk': "k \<in> set (functionsOf ?h prev)"
    using fk by (simp add: functionsOf_heapAfter)
  have "filter (\<lambda>k'. isFunction ?h (getProp ?next k')) (removeAll k (keys prev))
      = filter (\<lambda>k'. isFunction ?h (getProp prev k')) (removeAll k (keys prev))"
    by (intro filter_cong) (auto simp: getProp_deleteProp)
  then have funs: "functionsOf ?h ?next = removeAll k (functionsOf ?h prev)"
    by (simp add: functionsOf_def keys_deleteProp removeAll_filter_not_eq conj_commute)
  have "omit (deleteProp ps k) (removeAll k F) = omit ps F" if "k \<in> set F" for ps F
    using that unfolding omit_def deleteProp_def by (induction ps) auto
  with fk' have "omit ?next (functionsOf ?h ?next) = omit prev (functionsOf ?h prev)"
    by (simp only: funs)
  then have eq: "isEqual ?h (omit prev (functionsOf ?h prev)) (omit ?next (functionsOf ?h ?next))
      = Some True"
    by (simp add: isEqual_refl)
  have "every (sameText ?h prev ?next) (functionsOf ?h prev) = Inl TypeError"
  proof (rule every_first_error [OF fk'])
    from fk' have "isFunction ?h (getProp prev k)"
      by (simp add: in_functionsOf)
    then obtain s where "toString ?h (getProp prev k) = Inr s"
      using toString_function by blast
    then show "sameText ?h prev ?next k = Inl TypeError"
      by (simp add: sameText_def getProp_deleteProp toString_def)
  next
    fix fn
    assume "fn \<in> set (functionsOf ?h prev)" and "fn \<noteq> k"
    then have "isFunction ?h (getProp prev fn)"
      by (simp add: in_functionsOf)
    then obtain s where "toString ?h (getProp prev fn) = Inr s"
      using toString_function by blast
    with \<open>fn \<noteq> k\<close> show "sameText ?h prev ?next fn = Inr True"
      by (simp add: sameText_def getProp_deleteProp)
  qed
  then show ?thesis
    using deletion_heapAfter [OF del] eq by (simp add: shouldUpdate_def Let_def)
qed

text \<open>
  Claim C4 asks that a callable property present in only one of the two PropertySets be
  a mismatch: the gate is to return false, and not to raise an error. The gate does
  neither. On the example, with \<open>onMount\<close> in the previous props only it throws a
  \<^verbatim>\<open>TypeError\<close>, and with \<open>onMount\<close> in the next props only it returns true.
\<close>

theorem callable_name_sets_differ:
  "fst (shouldUpdate exHeap exPrev [(''options'', VRef 3), (''className'', VStr ''map'')])
     = Inl TypeError
   \<and> fst (shouldUpdate exHeap [(''options'', VRef 1), (''className'', VStr ''map'')] exNext)
     = Inr True"
  by code_simp

section \<open>The render gate: no exception under normal use\<close>

text \<open>
  Claim C5. Under normal use the gate throws no error and returns a boolean. The
  specification expects the two PropertySets of a call to have the same property names,
  takes an object-valued \<open>options\<close> from which the gate deletes \<open>mapTypeId\<close>, and leaves
  circular props aside as unsupported. Normal use is read accordingly: the two props have
  the same property names, the deletion step does not throw, and the previous props hold
  no circular reference. Then the call returns a boolean, and leaves the heap of the
  deletion step. The callable properties need not be the same: a name that is callable
  in the previous props only makes the partitions differ, and the gate returns false
  before it compares any text.
\<close>

theorem shouldUpdate_returns_boolean:
  assumes names: "set (keys prev) = set (keys next)"
    and del: "\<not> deletionThrows h prev"
    and nc: "\<not> circularProps h prev"
  shows "\<exists>b. shouldUpdate h prev next = (Inr b, heapAfter h prev)"
proof -
  let ?h = "heapAfter h prev"
  have "\<exists>b. fst (shouldUpdate h prev next) = Inr b"
  proof (cases "structurallyEqual ?h (nonCallables ?h prev) (nonCallables ?h next)")
    case False
    then show ?thesis
      by (auto simp: shouldUpdate_compared [OF del nc])
  next
    case True
    have "sameText ?h prev next fn =
        Inr (toString ?h (getProp prev fn) = toString ?h (getProp next fn))"
      if "fn \<in> set (functionsOf ?h prev)" for fn
    proof -
      from that names have "fn \<in> set (keys next)"
        by (auto simp: in_functionsOf)
      with omitted_function [OF True that] have "fn \<in> set (functionsOf ?h next)"
        by simp
      with that show ?thesis
        by (simp add: in_functionsOf sameText_functions)
    qed
    then have "every (sameText ?h prev next) (functionsOf ?h prev) =
        Inr (list_all (\<lambda>fn. toString ?h (getProp prev fn) = toString ?h (getProp next fn))
          (functionsOf ?h prev))"
      by (rule every_all_Inr)
    with True show ?thesis
      by (simp add: shouldUpdate_compared [OF del nc])
  qed
  then obtain b where "fst (shouldUpdate h prev next) = Inr b" ..
  then show ?thesis
    by (intro exI [of _ b]) (simp add: prod_eq_iff snd_shouldUpdate)
qed

text \<open>
  On the example: the two renders, and a next render that passes \<^verbatim>\<open>null\<close> for \<open>onMount\<close>.
\<close>

theorem shouldUpdate_returns_boolean_witness:
  "set (keys exPrev) = set (keys exNext)
   \<and> set (keys exPrev) = set (keys (setProp exNext ''onMount'' VNull))
   \<and> \<not> deletionThrows exHeap exPrev
   \<and> \<not> circularProps exHeap exPrev
   \<and> (\<exists>b. shouldUpdate exHeap exPrev exNext = (Inr b, heapAfter exHeap exPrev))
   \<and> (\<exists>b. shouldUpdate exHeap exPrev (setProp exNext ''onMount'' VNull)
         = (Inr b, heapAfter exHeap exPrev))"
proof -
  have names: "set (keys exPrev) = set (keys exNext)"
    by code_simp
  have names': "set (keys exPrev) = set (keys (setProp exNext ''onMount'' VNull))"
    by code_simp
  have del: "\<not> deletionThrows exHeap exPrev"
    by code_simp
  have nc: "\<not> circularProps exHeap exPrev"
    by (rule exHeap_not_circular)
  from shouldUpdate_returns_boolean [OF names del nc]
    shouldUpdate_returns_boolean [OF names' del nc] names names' del nc
  show ?thesis
    by blast
qed

section \<open>The render gate: the provider's type tag\<close>

lemma keys_setProp_insert: "set (keys (setProp ps k v)) = insert k (set (keys ps))"
  by (auto simp: keys_def setProp_def update_keys)

text \<open>The write of the provider does not change whether the deletion step throws, nor what
  it leaves.\<close>

lemma deleteMapTypeId_written:
  assumes "getProp prev ''options'' = VRef a"
  shows "deleteMapTypeId (setMapTypeId h a v) prev = deleteMapTypeId h prev"
proof (cases "map_of h a")
  case None
  then show ?thesis
    by (simp add: setMapTypeId_def)
next
  case (Some x)
  show ?thesis
  proof (cases x)
    case (JObject ps att)
    with Some assms show ?thesis
      by (simp add: deleteMapTypeId_def setMapTypeId_def update_conv' keys_setProp_insert
          deleteProp_setProp forget_forget)
        (simp add: forget_def)
  qed (use Some in \<open>simp_all add: setMapTypeId_def\<close>)
qed

text \<open>
  Claim C6, as amended. The gate deletes \<open>mapTypeId\<close> from the previous options before it
  compares, so a write of the provider to that field of the previous options object does
  not change the answer of the gate: the gate answers as if the write had not happened,
  and returns true after the write whenever it returned true without it. Nor does the
  write change the heap that the gate leaves, unless the deletion step throws: then the
  gate leaves the heap as it finds it, with the write. The field is excluded on the
  previous side only. When the next options are another object that carries \<open>mapTypeId\<close>,
  the field is compared and found missing from the previous options, see
  \<open>mapTypeId_of_next_compared\<close>.
\<close>

theorem mapTypeId_of_previous_ignored:
  assumes "getProp prev ''options'' = VRef a"
  shows "shouldUpdate (setMapTypeId h a v) prev next =
    (fst (shouldUpdate h prev next),
     if deletionThrows h prev then setMapTypeId h a v else snd (shouldUpdate h prev next))"
proof (cases "deleteMapTypeId h prev")
  case (Inl e)
  then have "deletionThrows h prev" and "e = TypeError"
    by (simp_all add: deleteMapTypeId_throws)
  with Inl show ?thesis
    by (simp add: shouldUpdate_def deleteMapTypeId_written [OF assms])
next
  case (Inr h')
  then have "\<not> deletionThrows h prev"
    using deleteMapTypeId_throws [of h prev TypeError] by simp
  with Inr show ?thesis
    by (simp add: shouldUpdate_def deleteMapTypeId_written [OF assms])
qed

text \<open>
  On the example: the previous render had the options object 3, into which the provider
  then writes \<open>mapTypeId\<close>; the next render has the equal options object 10. The gate
  returns true, with the write as without, and leaves the same heap.
\<close>

theorem mapTypeId_of_previous_ignored_witness:
  "getProp exNext ''options'' = VRef 3
   \<and> shouldUpdate (setMapTypeId exHeap 3 (VStr ''roadmap'')) exNext (setProp exPrev ''options'' (VRef 10))
       = shouldUpdate exHeap exNext (setProp exPrev ''options'' (VRef 10))
   \<and> fst (shouldUpdate exHeap exNext (setProp exPrev ''options'' (VRef 10))) = Inr True"
proof -
  have opts: "getProp exNext ''options'' = VRef 3"
    by code_simp
  have del: "\<not> deletionThrows exHeap exNext"
    by code_simp
  have true: "fst (shouldUpdate exHeap exNext (setProp exPrev ''options'' (VRef 10))) = Inr True"
    by code_simp
  from mapTypeId_of_previous_ignored [OF opts, of exHeap "VStr ''roadmap''"] del
  have "shouldUpdate (setMapTypeId exHeap 3 (VStr ''roadmap'')) exNext
        (setProp exPrev ''options'' (VRef 10))
      = shouldUpdate exHeap exNext (setProp exPrev ''options'' (VRef 10))"
    by simp
  with opts true show ?thesis
    by blast
qed

text \<open>
  The claim as the specification words it: a parent passes \<open>mapTypeId\<close> itself, in a new
  options object at every render. The provider writes the field of the previous options
  object, no other property value changes, and the gate returns false; it does so
  already without the write.
\<close>

theorem mapTypeId_of_next_compared:
  "fst (shouldUpdate
     (setMapTypeId
        [(1, JObject [(''zoom'', VNum 5), (''mapTypeId'', VStr ''roadmap'')] ordinary),
         (2, JObject [(''zoom'', VNum 5), (''mapTypeId'', VStr ''roadmap'')] ordinary)]
        1 (VStr ''hybrid''))
     [(''options'', VRef 1)] [(''options'', VRef 2)]) = Inr False
   \<and> fst (shouldUpdate
     [(1, JObject [(''zoom'', VNum 5), (''mapTypeId'', VStr ''roadmap'')] ordinary),
      (2, JObject [(''zoom'', VNum 5), (''mapTypeId'', VStr ''roadmap'')] ordinary)]
     [(''options'', VRef 1)] [(''options'', VRef 2)]) = Inr False"
  by code_simp

section \<open>The render gate: effect on the heap\<close>

text \<open>
  Claim C7, as amended. A call changes at most one object of the heap: the plain object
  that the previous \<open>options\<close> refers to, which loses its \<open>mapTypeId\<close> (and the attributes
  of that property) and keeps every other property with its value, its place and its
  attributes. Every other object is as before, and so is every object when the previous
  \<open>options\<close> refers to no plain object or the call throws on it. The props objects are read
  only. The next PropertySet is unchanged as far as it does not refer to that one object;
  when both renders pass the same options object, as they do with the default props of
  the view, the next PropertySet sees the deletion, see \<open>shouldUpdate_changes_next\<close>.
\<close>

theorem shouldUpdate_frame:
  "map_of (snd (shouldUpdate h prev next)) b =
     (if getProp prev ''options'' = VRef b
      then (case map_of h b of
              Some (JObject ps att) \<Rightarrow>
                Some (if ''mapTypeId'' \<in> set (keys ps) \<and> ''mapTypeId'' \<in> set (locked att)
                      then JObject ps att
                      else JObject (deleteProp ps ''mapTypeId'') (forget ''mapTypeId'' att))
            | x \<Rightarrow> x)
      else map_of h b)
   \<and> getProp (deleteProp ps ''mapTypeId'') k =
       (if k = ''mapTypeId'' then VUndefined else getProp ps k)
   \<and> keys (deleteProp ps ''mapTypeId'') = removeAll ''mapTypeId'' (keys ps)
   \<and> forget ''mapTypeId'' att =
       att\<lparr>locked := removeAll ''mapTypeId'' (locked att),
           readonly := removeAll ''mapTypeId'' (readonly att)\<rparr>"
proof -
  have "map_of (heapAfter h prev) b =
     (if getProp prev ''options'' = VRef b
      then (case map_of h b of
              Some (JObject ps att) \<Rightarrow>
                Some (if ''mapTypeId'' \<in> set (keys ps) \<and> ''mapTypeId'' \<in> set (locked att)
                      then JObject ps att
                      else JObject (deleteProp ps ''mapTypeId'') (forget ''mapTypeId'' att))
            | x \<Rightarrow> x)
      else map_of h b)"
    by (auto simp: heapAfter_def deleteMapTypeId_def update_conv'
        split: val.splits option.splits obj.splits)
  then show ?thesis
    by (simp add: snd_shouldUpdate getProp_deleteProp keys_deleteProp forget_def)
qed

text \<open>
  The claim as the specification words it: two renders with the same options object 1,
  into which the provider has written \<open>mapTypeId\<close>. Before the call the next props have
  \<open>options.mapTypeId\<close>; after the call they do not.
\<close>

theorem shouldUpdate_changes_next:
  "fieldOf exHeap (getProp (setProp exNext ''options'' (VRef 1)) ''options'') ''mapTypeId''
     = VStr ''roadmap''
   \<and> fieldOf (snd (shouldUpdate exHeap exPrev (setProp exNext ''options'' (VRef 1))))
       (getProp (setProp exNext ''options'' (VRef 1)) ''options'') ''mapTypeId''
     = VUndefined"
  by code_simp

section \<open>The render gate: the dereference of options\<close>

text \<open>
  Claim C10, as amended. The gate dereferences the previous \<open>options\<close> before it compares:
  for every previous PropertySet in which \<open>options\<close> is \<^verbatim>\<open>undefined\<close> (the property is absent)
  or \<^verbatim>\<open>null\<close>, the deletion step throws a \<^verbatim>\<open>TypeError\<close>, and the call ends with that error
  and an unchanged heap instead of returning a boolean. That does not extend to every
  value that is not an object: on a number, a string or a boolean the deletion step does
  not throw and the gate returns a boolean, see \<open>options_not_an_object\<close>.
\<close>

theorem nullish_options_throw:
  assumes "isNullish (getProp prev ''options'')"
  shows "deleteMapTypeId h prev = Inl TypeError \<and> shouldUpdate h prev next = (Inl TypeError, h)"
  using assms by (auto simp: shouldUpdate_def deleteMapTypeId_def isNullish_def)

theorem nullish_options_throw_witness:
  "isNullish (getProp [(''className'', VStr ''map'')] ''options'')
   \<and> shouldUpdate exHeap [(''className'', VStr ''map'')] exNext = (Inl TypeError, exHeap)
   \<and> isNullish (getProp [(''options'', VNull)] ''options'')
   \<and> shouldUpdate exHeap [(''options'', VNull)] exNext = (Inl TypeError, exHeap)"
proof -
  have absent: "isNullish (getProp [(''className'', VStr ''map'')] ''options'')"
    by code_simp
  have null: "isNullish (getProp [(''options'', VNull)] ''options'')"
    by code_simp
  from nullish_options_throw [OF absent, of exHeap exNext]
    nullish_options_throw [OF null, of exHeap exNext] absent null
  show ?thesis
    by blast
qed

text \<open>
  The claim as the specification words it: \<open>options\<close> is a number, a string, a boolean.
  None is an object, and the gate returns a boolean on each.
\<close>

theorem options_not_an_object:
  "shouldUpdate [] [(''options'', VNum 5)] [(''options'', VNum 5)] = (Inr True, [])
   \<and> shouldUpdate [] [(''options'', VStr ''roadmap'')] [(''options'', VStr ''hybrid'')]
       = (Inr False, [])
   \<and> shouldUpdate [] [(''options'', VBool False)] [(''options'', VBool False)] = (Inr True, [])"
  by code_simp

section \<open>The script loader\<close>

text \<open>
  With the provider's \<^verbatim>\<open>window.google.maps\<close> defined the effect initialises at once: it
  constructs the map, appends no script and registers no listener.
\<close>

lemma effect_when_present:
  assumes "google p = GoogleMaps"
  shows "effect api_key h v p = (onLoad h v p, None)"
    and "head_scripts (onLoad h v p) = head_scripts p"
    and "maps (onLoad h v p) = maps p @ [view_id v]"
  using assms by (simp_all add: effect_def onLoad_def Let_def split: option.splits)

text \<open>
  With \<^verbatim>\<open>window.google\<close> defined and no \<^verbatim>\<open>maps\<close> in it the effect takes the same path, and
  the construction of the map throws.
\<close>

lemma effect_without_maps:
  assumes "google p = GoogleWithoutMaps"
  shows "effect api_key h v p = (p\<lparr>thrown := thrown p @ [TypeError]\<rparr>, None)"
  using assms by (simp add: effect_def onLoad_def)

text \<open>
  A second view that mounts after the load of the first has ended finds the provider
  present: one script in all, and a map for each view.
\<close>

lemma mount_after_load:
  "head_scripts (fst (effect api_key h v2 (scriptLoaded h 0 (fst (effect api_key h v1 freshPage)))))
     = [\<lparr>src = ''https://maps.googleapis.com/maps/api/js?key='' @ api_key, listeners = [v1]\<rparr>]
   \<and> maps (fst (effect api_key h v2 (scriptLoaded h 0 (fst (effect api_key h v1 freshPage)))))
     = [view_id v1, view_id v2]
   \<and> snd (effect api_key h v2 (scriptLoaded h 0 (fst (effect api_key h v1 freshPage)))) = None"
  by (simp add: effect_def scriptLoaded_def onLoad_def freshPage_def Let_def
      split: option.splits)

text \<open>
  Claim C8 asks for at most one run of the load routine in the life of a page, also when
  several views mount before the load has ended. The effect tests \<^verbatim>\<open>window.google\<close>, which
  the provider's script defines only once it has run. Two views that mount on a fresh
  page one after the other, before any load has ended, each find it undefined and each
  append a script of their own.
\<close>

theorem two_mounts_before_load:
  "head_scripts (fst (effect api_key h v2 (fst (effect api_key h v1 freshPage))))
     = [\<lparr>src = ''https://maps.googleapis.com/maps/api/js?key='' @ api_key, listeners = [v1]\<rparr>,
        \<lparr>src = ''https://maps.googleapis.com/maps/api/js?key='' @ api_key, listeners = [v2]\<rparr>]"
  by (simp add: effect_def freshPage_def)

section \<open>The overlay\<close>

text \<open>
  Claim C9. The visibility of the overlay is a function of the \<^verbatim>\<open>open\<close> property alone: for
  every props object, a truthy \<^verbatim>\<open>open\<close> gives \<^verbatim>\<open>visibility: visible\<close> and \<^verbatim>\<open>opacity: 1\<close>, a falsy
  one (\<^verbatim>\<open>false\<close>, \<^verbatim>\<open>undefined\<close> when the property is absent, \<^verbatim>\<open>null\<close>, \<^verbatim>\<open>0\<close>, \<^verbatim>\<open>NaN\<close>, the empty
  string) gives \<^verbatim>\<open>visibility: hidden\<close> and \<^verbatim>\<open>opacity: 0\<close>; and two props objects whose \<^verbatim>\<open>open\<close>
  are both truthy or both falsy give the same declarations.
\<close>

theorem ModalBehind_open:
  "(truthy (getProp props ''open'') \<longrightarrow>
      map_of (ModalBehind props) ''visibility'' = Some ''visible''
      \<and> map_of (ModalBehind props) ''opacity'' = Some ''1'')
   \<and> (\<not> truthy (getProp props ''open'') \<longrightarrow>
      map_of (ModalBehind props) ''visibility'' = Some ''hidden''
      \<and> map_of (ModalBehind props) ''opacity'' = Some ''0'')
   \<and> (truthy (getProp props ''open'') = truthy (getProp props' ''open'') \<longrightarrow>
      ModalBehind props = ModalBehind props')"
  by (simp add: ModalBehind_def)

theorem ModalBehind_open_witness:
  "truthy (getProp [(''open'', VBool True)] ''open'')
   \<and> map_of (ModalBehind [(''open'', VBool True)]) ''visibility'' = Some ''visible''
   \<and> map_of (ModalBehind [(''open'', VBool True)]) ''opacity'' = Some ''1''
   \<and> \<not> truthy (getProp [(''children'', VRef 1)] ''open'')
   \<and> map_of (ModalBehind [(''children'', VRef 1)]) ''visibility'' = Some ''hidden''
   \<and> map_of (ModalBehind [(''children'', VRef 1)]) ''opacity'' = Some ''0''
   \<and> truthy (getProp [(''open'', VBool True)] ''open'') = truthy (getProp [(''open'', VNum 1)] ''open'')
   \<and> ModalBehind [(''open'', VBool True)] = ModalBehind [(''open'', VNum 1)]"
proof -
  have shown: "truthy (getProp [(''open'', VBool True)] ''open'')"
    by code_simp
  have hidden: "\<not> truthy (getProp [(''children'', VRef 1)] ''open'')"
    by code_simp
  have same: "truthy (getProp [(''open'', VBool True)] ''open'')
      = truthy (getProp [(''open'', VNum 1)] ''open'')"
    by code_simp
  from ModalBehind_open [of "[(''open'', VBool True)]" "[(''open'', VNum 1)]"] shown same
  have "map_of (ModalBehind [(''open'', VBool True)]) ''visibility'' = Some ''visible''"
    and "map_of (ModalBehind [(''open'', VBool True)]) ''opacity'' = Some ''1''"
    and "ModalBehind [(''open'', VBool True)] = ModalBehind [(''open'', VNum 1)]"
    by blast+
  moreover
  from ModalBehind_open [of "[(''children'', VRef 1)]" "[]"] hidden
  have "map_of (ModalBehind [(''children'', VRef 1)]) ''visibility'' = Some ''hidden''"
    and "map_of (ModalBehind [(''children'', VRef 1)]) ''opacity'' = Some ''0''"
    by blast+
  ultimately show ?thesis
    using shown hidden same by blast
qed

end
